theory Spec2Isabelle
  imports Main "HOL-Library.Multiset" "HOL-Library.Product_Lexorder" "HOL-Library.Sublist"
    "HOL-Library.Code_Target_Nat"
begin

section \<open>Three-point pharmacophore fingerprints (kripo/fingerprint/threepoint.py)\<close>

subsection \<open>Data model\<close>

text \<open>
  A feature kind is one of the six keys of the \<^verbatim>\<open>FEATURE2BIT\<close> dictionary. A feature
  carries its kind and a position; the only geometric primitive the encoder uses is the
  method \<^verbatim>\<open>distance\<close> of a feature, which is not part of the two source files and is
  therefore a parameter \<open>distance\<close> of the encoder below. Distances are values of an
  arbitrary type \<open>'d\<close>: the encoder only hands them to \<^verbatim>\<open>bin_distance\<close>.
\<close>

datatype FeatureKind = LIPO | POSC | NEGC | HDON | HACC | AROM

record 'p feature =
  kind :: FeatureKind
  position :: 'p

text \<open>
  A Python string is the list of its Unicode code points. The values of
  \<^verbatim>\<open>FEATURE2BIT\<close> are one-character strings; they are represented by the code point of
  that character, so that \<^verbatim>\<open>ord\<close> of a tag is the tag itself and comparing two tags as
  strings is comparing the code points.
\<close>

type_synonym str = "nat list"

datatype error = KeyError str | ValueError

text \<open>One entry of the list \<^verbatim>\<open>distances\<close>: a dictionary with the keys 'id' and 'bin'.\<close>

record dist_entry =
  id' :: nat
  bin :: int

definition FEATURE2BIT :: "FeatureKind \<Rightarrow> nat" where
  "FEATURE2BIT k =
     (case k of
        LIPO \<Rightarrow> of_char CHR ''H''
      | POSC \<Rightarrow> of_char CHR ''P''
      | NEGC \<Rightarrow> of_char CHR ''N''
      | HDON \<Rightarrow> of_char CHR ''O''
      | HACC \<Rightarrow> of_char CHR ''A''
      | AROM \<Rightarrow> of_char CHR ''R'')"

text \<open>
  Python's \<^verbatim>\<open>chr\<close> raises ValueError when its argument is not in \<^verbatim>\<open>range(0x110000)\<close>
  (older interpreters report an argument beyond the C int range as OverflowError; both
  are the one failure \<open>ValueError\<close> here).
\<close>

definition chr :: "int \<Rightarrow> error + nat" where
  "chr n = (if 0 \<le> n \<and> n < 1114112 then Inr (nat n) else Inl ValueError)"

subsection \<open>Control flow: exceptions and for loops\<close>

definition bind :: "error + 'a \<Rightarrow> ('a \<Rightarrow> error + 'b) \<Rightarrow> error + 'b" where
  "bind m f = (case m of Inl e \<Rightarrow> Inl e | Inr x \<Rightarrow> f x)"

text \<open>A for loop whose body may raise: the first exception leaves the loop.\<close>

fun for_each :: "'a list \<Rightarrow> ('a \<Rightarrow> 's \<Rightarrow> error + 's) \<Rightarrow> 's \<Rightarrow> error + 's" where
  "for_each [] body s = Inr s"
| "for_each (x # xs) body s =
     (case body x s of Inl e \<Rightarrow> Inl e | Inr s' \<Rightarrow> for_each xs body s')"

subsection \<open>calculate\_distance\_matrix\<close>

definition calculate_distance_matrix ::
  "('f \<Rightarrow> 'f \<Rightarrow> 'd) \<Rightarrow> 'f list \<Rightarrow> 'd list list" where
  "calculate_distance_matrix distance ordered_features =
     (let n = length ordered_features
      in map (\<lambda>i. map (\<lambda>j. distance (ordered_features ! i) (ordered_features ! j)) [0..<n])
           [0..<n])"

subsection \<open>fuzzy\_offsets\<close>

text \<open>
  The generator is consumed at once by \<^verbatim>\<open>list(fuzzy_offsets(fuzzy_factor))\<close>, so it is
  the list of the offsets it yields, or the ValueError of its last branch.
\<close>

definition fuzzy_offsets :: "int \<Rightarrow> error + (int \<times> int \<times> int) list" where
  "fuzzy_offsets fuzzy_factor =
     (if fuzzy_factor \<ge> 0 then
        Inr (concat (map (\<lambda>i.
               concat (map (\<lambda>j.
                 map (\<lambda>k. (i, j, k)) [0 - fuzzy_factor..fuzzy_factor])
               [0 - fuzzy_factor..fuzzy_factor]))
             [0 - fuzzy_factor..fuzzy_factor]))
      else if fuzzy_factor = - 1 then
        Inr [(1, 2, 1), (1, 1, - 1), (1, - 1, - 1), (1, 0, - 1), (0, - 1, - 1),
             (- 1, - 1, - 1), (1, 2, 0)]
      else if fuzzy_factor = - 2 then
        Inr [(0, 0, 0), (- 1, 0, 0), (1, 0, 0), (0, - 1, 0), (0, 1, 0), (0, 0, - 1),
             (0, 0, 1)]
      else Inl ValueError)"

subsection \<open>from\_pharmacophore\<close>

text \<open>
  \<^verbatim>\<open>bit_index = BIT_INFO[bit_info]; bits.add(bit_index)\<close>: a missing key raises
  KeyError with that key. The dictionary is loaded by \<^verbatim>\<open>load_bitinfo\<close>, which is not in the
  source files at hand; its values are bit positions, non-negative integers, hence
  natural numbers here.
\<close>

definition add_bit :: "(str \<rightharpoonup> nat) \<Rightarrow> str \<Rightarrow> nat set \<Rightarrow> error + nat set" where
  "add_bit BIT_INFO bit_info bits =
     (case BIT_INFO bit_info of
        None \<Rightarrow> Inl (KeyError bit_info)
      | Some bit_index \<Rightarrow> Inr (insert bit_index bits))"

text \<open>
  Every step of the encoder builds a key and looks it up at once. Building the key gives
  \<open>Inl e\<close> when \<^verbatim>\<open>chr\<close> raises, \<open>Inr None\<close> when the step is left by \<^verbatim>\<open>continue\<close>, and
  \<open>Inr (Some bit_info)\<close> otherwise; \<open>emit\<close> is the rest of the step.
\<close>

definition emit :: "(str \<rightharpoonup> nat) \<Rightarrow> error + str option \<Rightarrow> nat set \<Rightarrow> error + nat set" where
  "emit BIT_INFO k bits =
     (case k of
        Inl e \<Rightarrow> Inl e
      | Inr None \<Rightarrow> Inr bits
      | Inr (Some bit_info) \<Rightarrow> add_bit BIT_INFO bit_info bits)"

text \<open>Lines 104 to 107: the bare tag of every feature.\<close>

definition singleton_bits ::
  "(str \<rightharpoonup> nat) \<Rightarrow> 'p feature list \<Rightarrow> nat set \<Rightarrow> error + nat set" where
  "singleton_bits BIT_INFO ordered_features bits =
     for_each ordered_features
       (\<lambda>a. emit BIT_INFO (Inr (Some [FEATURE2BIT (kind a)]))) bits"

text \<open>Lines 121 and 129: \<^verbatim>\<open>ids[0] + chr(n) + ids[1]\<close>.\<close>

definition pair_bit_info :: "nat list \<Rightarrow> int \<Rightarrow> error + str option" where
  "pair_bit_info ids n =
     (case chr n of Inl e \<Rightarrow> Inl e | Inr c \<Rightarrow> Inr (Some ([ids ! 0] @ [c] @ [ids ! 1])))"

text \<open>Lines 126 to 129: the bound check of one pair offset and the perturbed key.\<close>

definition pair_fuzzy_bit_info :: "int \<Rightarrow> nat list \<Rightarrow> int \<Rightarrow> int \<Rightarrow> error + str option" where
  "pair_fuzzy_bit_info nr_bins ids bin_id i =
     (if nr_bins < bin_id + i \<or> bin_id + i < 0 then Inr None
      else pair_bit_info ids (bin_id + 97 + i))"

text \<open>Lines 115 to 131: the body of the loop over the pairs \<open>a < b\<close>.\<close>

definition pair_body ::
  "('d \<Rightarrow> 'd list \<Rightarrow> nat) \<Rightarrow> 'd list \<Rightarrow> (str \<rightharpoonup> nat) \<Rightarrow> 'p feature list \<Rightarrow> 'd list list \<Rightarrow>
   int \<Rightarrow> nat \<Rightarrow> nat \<Rightarrow> nat set \<Rightarrow> error + nat set" where
  "pair_body bin_distance BINS BIT_INFO ordered_features dist_matrix pair_fuzzy_factor a b bits =
     (let nr_bins = int (length BINS);
          distance = dist_matrix ! a ! b;
          bin_id = int (bin_distance distance BINS);
          ids = [FEATURE2BIT (kind (ordered_features ! a)),
                 FEATURE2BIT (kind (ordered_features ! b))]
      in bind (emit BIT_INFO (pair_bit_info ids (bin_id + 97)) bits) (\<lambda>bits.
         for_each [0 - pair_fuzzy_factor..pair_fuzzy_factor]
           (\<lambda>i. emit BIT_INFO (pair_fuzzy_bit_info nr_bins ids bin_id i)) bits))"

text \<open>Lines 110 to 131. On naturals \<open>nr_features - 1\<close> is 0 for an empty list, and the
  range is empty as \<^verbatim>\<open>range(-1)\<close> is.\<close>

definition pair_bits ::
  "('d \<Rightarrow> 'd list \<Rightarrow> nat) \<Rightarrow> 'd list \<Rightarrow> (str \<rightharpoonup> nat) \<Rightarrow> 'p feature list \<Rightarrow> 'd list list \<Rightarrow>
   int \<Rightarrow> nat set \<Rightarrow> error + nat set" where
  "pair_bits bin_distance BINS BIT_INFO ordered_features dist_matrix fuzzy_factor bits =
     (let nr_features = length ordered_features;
          pair_fuzzy_factor = (if fuzzy_factor < 0 then 1 else fuzzy_factor)
      in for_each [0..<nr_features - 1] (\<lambda>a.
           for_each [a + 1..<nr_features] (\<lambda>b.
             pair_body bin_distance BINS BIT_INFO ordered_features dist_matrix
               pair_fuzzy_factor a b)) bits)"

text \<open>Lines 147 and 177: \<^verbatim>\<open>sort(key=lambda d: (d['bin'], ord(d['id'])))\<close>, a stable sort
  on the lexicographically ordered pairs.\<close>

definition sort_distances :: "dist_entry list \<Rightarrow> dist_entry list" where
  "sort_distances ds = sort_key (\<lambda>d. (bin d, id' d)) ds"

text \<open>Lines 149 to 152 and 179 to 182: three tags, then three bin characters.\<close>

definition triple_bit_info :: "dist_entry list \<Rightarrow> error + str option" where
  "triple_bit_info ds =
     bind (chr (bin (ds ! 0) + 97)) (\<lambda>c0.
     bind (chr (bin (ds ! 1) + 97)) (\<lambda>c1.
     bind (chr (bin (ds ! 2) + 97)) (\<lambda>c2.
       Inr (Some ([id' (ds ! 0)] @ [id' (ds ! 1)] @ [id' (ds ! 2)] @ [c0] @ [c1] @ [c2])))))"

text \<open>Lines 158 to 182: the bound check of one offset and the perturbed key.\<close>

definition fuzzy_triple_bit_info ::
  "int \<Rightarrow> dist_entry list \<Rightarrow> int \<times> int \<times> int \<Rightarrow> error + str option" where
  "fuzzy_triple_bit_info nr_bins distances ijk =
     (case ijk of (i, j, k) \<Rightarrow>
        let bin_i = bin (distances ! 0) + i;
            bin_j = bin (distances ! 1) + j;
            bin_k = bin (distances ! 2) + k
        in if nr_bins \<le> bin_i \<or> bin_i < 0 \<or> nr_bins \<le> bin_j \<or> bin_j < 0 \<or>
              nr_bins \<le> bin_k \<or> bin_k < 0
           then Inr None
           else triple_bit_info (sort_distances
                  [\<lparr>id' = id' (distances ! 0), bin = bin_i\<rparr>,
                   \<lparr>id' = id' (distances ! 1), bin = bin_j\<rparr>,
                   \<lparr>id' = id' (distances ! 2), bin = bin_k\<rparr>]))"

text \<open>Lines 137 to 147: the three sorted observations of the triple \<open>a < b < c\<close>.\<close>

definition triple_distances ::
  "('d \<Rightarrow> 'd list \<Rightarrow> nat) \<Rightarrow> 'd list \<Rightarrow> 'p feature list \<Rightarrow> 'd list list \<Rightarrow>
   nat \<Rightarrow> nat \<Rightarrow> nat \<Rightarrow> dist_entry list" where
  "triple_distances bin_distance BINS ordered_features dist_matrix a b c =
     sort_distances
       [\<lparr>id' = FEATURE2BIT (kind (ordered_features ! c)),
         bin = int (bin_distance (dist_matrix ! a ! b) BINS)\<rparr>,
        \<lparr>id' = FEATURE2BIT (kind (ordered_features ! b)),
         bin = int (bin_distance (dist_matrix ! a ! c) BINS)\<rparr>,
        \<lparr>id' = FEATURE2BIT (kind (ordered_features ! a)),
         bin = int (bin_distance (dist_matrix ! b ! c) BINS)\<rparr>]"

text \<open>Lines 137 to 184: the body of the loop over the triples \<open>a < b < c\<close>.\<close>

definition triple_body ::
  "('d \<Rightarrow> 'd list \<Rightarrow> nat) \<Rightarrow> 'd list \<Rightarrow> (str \<rightharpoonup> nat) \<Rightarrow> 'p feature list \<Rightarrow> 'd list list \<Rightarrow>
   (int \<times> int \<times> int) list \<Rightarrow> nat \<Rightarrow> nat \<Rightarrow> nat \<Rightarrow> nat set \<Rightarrow> error + nat set" where
  "triple_body bin_distance BINS BIT_INFO ordered_features dist_matrix offsets a b c bits =
     (let nr_bins = int (length BINS);
          distances = triple_distances bin_distance BINS ordered_features dist_matrix a b c
      in bind (emit BIT_INFO (triple_bit_info distances) bits) (\<lambda>bits.
         for_each offsets
           (\<lambda>ijk. emit BIT_INFO (fuzzy_triple_bit_info nr_bins distances ijk)) bits))"

text \<open>Lines 134 to 184.\<close>

definition triple_bits ::
  "('d \<Rightarrow> 'd list \<Rightarrow> nat) \<Rightarrow> 'd list \<Rightarrow> (str \<rightharpoonup> nat) \<Rightarrow> 'p feature list \<Rightarrow> 'd list list \<Rightarrow>
   (int \<times> int \<times> int) list \<Rightarrow> nat set \<Rightarrow> error + nat set" where
  "triple_bits bin_distance BINS BIT_INFO ordered_features dist_matrix offsets bits =
     (let nr_features = length ordered_features
      in for_each [0..<nr_features - 2] (\<lambda>a.
           for_each [a + 1..<nr_features - 1] (\<lambda>b.
             for_each [b + 1..<nr_features] (\<lambda>c.
               triple_body bin_distance BINS BIT_INFO ordered_features dist_matrix
                 offsets a b c))) bits)"

text \<open>
  Line 186, \<^verbatim>\<open>intbitset(bits)\<close>: the constructor of the library stores every position as
  a C int. A position of \<open>2\<^sup>3\<^sup>1\<close> or more does not fit and the constructor raises ValueError;
  otherwise the fingerprint is the set of the positions collected.
\<close>

definition intbitset :: "nat set \<Rightarrow> error + nat set" where
  "intbitset bits = (if \<forall>b\<in>bits. b < 2 ^ 31 then Inr bits else Inl ValueError)"

text \<open>
  The encoder. \<open>distance\<close> is the method of the features, \<open>bin_distance\<close> the helper of
  \<^verbatim>\<open>utils\<close>, \<open>BINS\<close> and \<open>BIT_INFO\<close> the two module constants; none of the four is
  defined in the source files at hand, so they are parameters. The pharmacophore is the
  list \<^verbatim>\<open>list(pharmacophore.features)\<close>. \<^verbatim>\<open>sorted\<close> is stable, as \<open>sort_key\<close> is.
\<close>

definition from_pharmacophore ::
  "('p feature \<Rightarrow> 'p feature \<Rightarrow> 'd) \<Rightarrow> ('d \<Rightarrow> 'd list \<Rightarrow> nat) \<Rightarrow> 'd list \<Rightarrow> (str \<rightharpoonup> nat) \<Rightarrow>
   'p feature list \<Rightarrow> bool \<Rightarrow> int \<Rightarrow> error + nat set" where
  "from_pharmacophore distance bin_distance BINS BIT_INFO pharmacophore subs fuzzy_factor =
     (let ordered_features = sort_key (\<lambda>f. FEATURE2BIT (kind f)) pharmacophore;
          dist_matrix = calculate_distance_matrix distance ordered_features;
          bits = {}
      in bind (if subs then singleton_bits BIT_INFO ordered_features bits else Inr bits)
           (\<lambda>bits.
         bind (if subs
               then pair_bits bin_distance BINS BIT_INFO ordered_features dist_matrix
                      fuzzy_factor bits
               else Inr bits) (\<lambda>bits.
         bind (fuzzy_offsets fuzzy_factor) (\<lambda>offsets.
         bind (triple_bits bin_distance BINS BIT_INFO ordered_features dist_matrix
                 offsets bits) (\<lambda>bits.
           intbitset bits)))))"

text \<open>
  Modelled from the spec: \<^verbatim>\<open>bin_distance\<close> of \<^verbatim>\<open>utils\<close> is not in the source files at
  hand. The spec gives it as the count of thresholds less than or equal to the distance.
  It is used to run the encoder on concrete inputs; the theorems below hold for every
  \<open>bin_distance\<close>.
\<close>

definition bin_distance_spec :: "'d::linorder \<Rightarrow> 'd list \<Rightarrow> nat" where
  "bin_distance_spec d bins = length (filter (\<lambda>t. t \<le> d) bins)"


subsection \<open>The sequence of keys of one call\<close>

text \<open>
  No step of the encoder reads the bits collected so far, so a call is the sequence of the
  keys it builds, each looked up at once. The definitions below list these keys in the
  order of the loops; \<open>from_pharmacophore_trace\<close> proves that the encoder is the left to
  right run of \<open>emit\<close> over \<open>key_trace\<close>, followed by \<open>intbitset\<close>.
\<close>

definition singleton_trace :: "'p feature list \<Rightarrow> (error + str option) list" where
  "singleton_trace ordered_features =
     map (\<lambda>a. Inr (Some [FEATURE2BIT (kind a)])) ordered_features"

definition pair_trace_at ::
  "('d \<Rightarrow> 'd list \<Rightarrow> nat) \<Rightarrow> 'd list \<Rightarrow> 'p feature list \<Rightarrow> 'd list list \<Rightarrow>
   int \<Rightarrow> nat \<Rightarrow> nat \<Rightarrow> (error + str option) list" where
  "pair_trace_at bin_distance BINS ordered_features dist_matrix pair_fuzzy_factor a b =
     (let nr_bins = int (length BINS);
          distance = dist_matrix ! a ! b;
          bin_id = int (bin_distance distance BINS);
          ids = [FEATURE2BIT (kind (ordered_features ! a)),
                 FEATURE2BIT (kind (ordered_features ! b))]
      in pair_bit_info ids (bin_id + 97) #
         map (pair_fuzzy_bit_info nr_bins ids bin_id)
           [0 - pair_fuzzy_factor..pair_fuzzy_factor])"

definition pair_trace ::
  "('d \<Rightarrow> 'd list \<Rightarrow> nat) \<Rightarrow> 'd list \<Rightarrow> 'p feature list \<Rightarrow> 'd list list \<Rightarrow>
   int \<Rightarrow> (error + str option) list" where
  "pair_trace bin_distance BINS ordered_features dist_matrix fuzzy_factor =
     (let nr_features = length ordered_features;
          pair_fuzzy_factor = (if fuzzy_factor < 0 then 1 else fuzzy_factor)
      in concat (map (\<lambda>a.
           concat (map (\<lambda>b.
             pair_trace_at bin_distance BINS ordered_features dist_matrix pair_fuzzy_factor a b)
           [a + 1..<nr_features]))
         [0..<nr_features - 1]))"

definition triple_trace_at ::
  "('d \<Rightarrow> 'd list \<Rightarrow> nat) \<Rightarrow> 'd list \<Rightarrow> 'p feature list \<Rightarrow> 'd list list \<Rightarrow>
   (int \<times> int \<times> int) list \<Rightarrow> nat \<Rightarrow> nat \<Rightarrow> nat \<Rightarrow> (error + str option) list" where
  "triple_trace_at bin_distance BINS ordered_features dist_matrix offsets a b c =
     (let nr_bins = int (length BINS);
          distances = triple_distances bin_distance BINS ordered_features dist_matrix a b c
      in triple_bit_info distances #
         map (fuzzy_triple_bit_info nr_bins distances) offsets)"

definition triple_trace ::
  "('d \<Rightarrow> 'd list \<Rightarrow> nat) \<Rightarrow> 'd list \<Rightarrow> 'p feature list \<Rightarrow> 'd list list \<Rightarrow>
   (int \<times> int \<times> int) list \<Rightarrow> (error + str option) list" where
  "triple_trace bin_distance BINS ordered_features dist_matrix offsets =
     (let nr_features = length ordered_features
      in concat (map (\<lambda>a.
           concat (map (\<lambda>b.
             concat (map (\<lambda>c.
               triple_trace_at bin_distance BINS ordered_features dist_matrix offsets a b c)
             [b + 1..<nr_features]))
           [a + 1..<nr_features - 1]))
         [0..<nr_features - 2]))"

definition key_trace ::
  "('p feature \<Rightarrow> 'p feature \<Rightarrow> 'd) \<Rightarrow> ('d \<Rightarrow> 'd list \<Rightarrow> nat) \<Rightarrow> 'd list \<Rightarrow>
   'p feature list \<Rightarrow> bool \<Rightarrow> int \<Rightarrow> (error + str option) list" where
  "key_trace distance bin_distance BINS pharmacophore subs fuzzy_factor =
     (let ordered_features = sort_key (\<lambda>f. FEATURE2BIT (kind f)) pharmacophore;
          dist_matrix = calculate_distance_matrix distance ordered_features
      in (if subs then singleton_trace ordered_features else []) @
         (if subs
          then pair_trace bin_distance BINS ordered_features dist_matrix fuzzy_factor
          else []) @
         (case fuzzy_offsets fuzzy_factor of
            Inl e \<Rightarrow> [Inl e]
          | Inr offsets \<Rightarrow>
              triple_trace bin_distance BINS ordered_features dist_matrix offsets))"

text \<open>A key step succeeds when it builds no key or a key of the dictionary; \<open>bits_of\<close> are
  the bits of the keys of a set of steps.\<close>

definition key_ok :: "(str \<rightharpoonup> nat) \<Rightarrow> error + str option \<Rightarrow> bool" where
  "key_ok BIT_INFO k =
     (case k of Inl e \<Rightarrow> False | Inr None \<Rightarrow> True | Inr (Some bit_info) \<Rightarrow> BIT_INFO bit_info \<noteq> None)"

definition bits_of :: "(str \<rightharpoonup> nat) \<Rightarrow> (error + str option) set \<Rightarrow> nat set" where
  "bits_of BIT_INFO ks = {v. \<exists>bit_info. Inr (Some bit_info) \<in> ks \<and> BIT_INFO bit_info = Some v}"

text \<open>The steps of a call that come before the first step that builds a given key.\<close>

definition steps_before :: "str \<Rightarrow> (error + str option) list \<Rightarrow> (error + str option) list" where
  "steps_before bit_info ks = takeWhile (\<lambda>k. k \<noteq> Inr (Some bit_info)) ks"

text \<open>The keys of one pair and of one triple, in terms of the features themselves instead of
  their positions in \<open>ordered_features\<close> (see \<open>pair_trace_at_elements\<close> and
  \<open>triple_trace_at_elements\<close>).\<close>

definition pair_keys_of ::
  "('p feature \<Rightarrow> 'p feature \<Rightarrow> 'd) \<Rightarrow> ('d \<Rightarrow> 'd list \<Rightarrow> nat) \<Rightarrow> 'd list \<Rightarrow> int \<Rightarrow>
   'p feature \<Rightarrow> 'p feature \<Rightarrow> (error + str option) list" where
  "pair_keys_of distance bin_distance BINS pair_fuzzy_factor x y =
     (let bin_id = int (bin_distance (distance x y) BINS);
          ids = [FEATURE2BIT (kind x), FEATURE2BIT (kind y)]
      in pair_bit_info ids (bin_id + 97) #
         map (pair_fuzzy_bit_info (int (length BINS)) ids bin_id)
           [0 - pair_fuzzy_factor..pair_fuzzy_factor])"

definition triple_keys_of ::
  "('p feature \<Rightarrow> 'p feature \<Rightarrow> 'd) \<Rightarrow> ('d \<Rightarrow> 'd list \<Rightarrow> nat) \<Rightarrow> 'd list \<Rightarrow>
   (int \<times> int \<times> int) list \<Rightarrow> 'p feature \<Rightarrow> 'p feature \<Rightarrow> 'p feature \<Rightarrow>
   (error + str option) list" where
  "triple_keys_of distance bin_distance BINS offsets x y z =
     (let distances = sort_distances
            [\<lparr>id' = FEATURE2BIT (kind z), bin = int (bin_distance (distance x y) BINS)\<rparr>,
             \<lparr>id' = FEATURE2BIT (kind y), bin = int (bin_distance (distance x z) BINS)\<rparr>,
             \<lparr>id' = FEATURE2BIT (kind x), bin = int (bin_distance (distance y z) BINS)\<rparr>]
      in triple_bit_info distances #
         map (fuzzy_triple_bit_info (int (length BINS)) distances) offsets)"

subsection \<open>A concrete pharmacophore\<close>

text \<open>
  Features on a line, with the absolute difference as distance, four thresholds, and a
  dictionary that knows every well-formed key whose bin characters are among the first
  \<open>m\<close> letters. The position of a key is \<open>key_code\<close>, five bits for each character, so
  the positions are below \<open>2\<^sup>3\<^sup>0\<close>.
\<close>

definition example_distance :: "int feature \<Rightarrow> int feature \<Rightarrow> int" where
  "example_distance f g = \<bar>position f - position g\<bar>"

definition example_bins :: "int list" where
  "example_bins = [2, 4, 6, 8]"

definition fA :: "int feature" where "fA = \<lparr>kind = HACC, position = 0\<rparr>"

definition fH :: "int feature" where "fH = \<lparr>kind = LIPO, position = 3\<rparr>"

definition fP :: "int feature" where "fP = \<lparr>kind = POSC, position = 7\<rparr>"

definition fR :: "int feature" where "fR = \<lparr>kind = AROM, position = 20\<rparr>"

definition fH2 :: "int feature" where "fH2 = \<lparr>kind = LIPO, position = 5\<rparr>"

definition is_tag :: "nat \<Rightarrow> bool" where
  "is_tag c = (c \<in> set (map FEATURE2BIT [LIPO, POSC, NEGC, HDON, HACC, AROM]))"

definition is_bin_char :: "nat \<Rightarrow> nat \<Rightarrow> bool" where
  "is_bin_char m c = (97 \<le> c \<and> c < 97 + m)"

definition key_code :: "str \<Rightarrow> nat" where
  "key_code k = foldl (\<lambda>acc c. acc * 32 + c mod 32) 0 k"

definition example_bit_info :: "nat \<Rightarrow> str \<rightharpoonup> nat" where
  "example_bit_info m k =
     (if (length k = 1 \<and> is_tag (k ! 0)) \<or>
         (length k = 3 \<and> is_tag (k ! 0) \<and> is_bin_char m (k ! 1) \<and> is_tag (k ! 2)) \<or>
         (length k = 6 \<and> is_tag (k ! 0) \<and> is_tag (k ! 1) \<and> is_tag (k ! 2) \<and>
          is_bin_char m (k ! 3) \<and> is_bin_char m (k ! 4) \<and> is_bin_char m (k ! 5))
      then Some (key_code k) else None)"

section \<open>Properties\<close>

subsection \<open>The fuzzy offset generator\<close>

lemma sorted_wrt_concat_map:
  fixes f :: "'a::linorder \<Rightarrow> 'b::linorder list"
  assumes "sorted_wrt (<) xs"
    and "\<And>x. x \<in> set xs \<Longrightarrow> sorted_wrt (<) (f x)"
    and "\<And>x y u v. x \<in> set xs \<Longrightarrow> y \<in> set xs \<Longrightarrow> x < y \<Longrightarrow> u \<in> set (f x) \<Longrightarrow> v \<in> set (f y) \<Longrightarrow> u < v"
  shows "sorted_wrt (<) (concat (map f xs))"
  using assms
proof (induction xs)
  case Nil
  then show ?case by simp
next
  case (Cons x xs)
  have "sorted_wrt (<) (concat (map f xs))"
  proof (rule Cons.IH)
    show "sorted_wrt (<) xs" using Cons.prems(1) by simp
    show "sorted_wrt (<) (f z)" if "z \<in> set xs" for z
      using Cons.prems(2) [of z] that by simp
    show "u < v" if "z \<in> set xs" "y \<in> set xs" "z < y" "u \<in> set (f z)" "v \<in> set (f y)"
      for z y u v
      using Cons.prems(3) [of z y u v] that by simp
  qed
  moreover have "sorted_wrt (<) (f x)"
    using Cons.prems(2) by simp
  moreover have "u < v" if "u \<in> set (f x)" "v \<in> set (concat (map f xs))" for u v
  proof -
    from that(2) obtain y where y: "y \<in> set xs" "v \<in> set (f y)" by auto
    with Cons.prems(1) have "x < y" by auto
    with Cons.prems(3) [of x y u v] y that(1) show ?thesis by simp
  qed
  ultimately show ?case by (simp add: sorted_wrt_append)
qed

lemma sorted_wrt_upto_less: "sorted_wrt (<) [i..j::int]"
  using strict_sorted_iff[of "[i..j]"] by simp

lemma fuzzy_offsets_nonneg:
  "0 \<le> f \<Longrightarrow> fuzzy_offsets f =
     Inr (concat (map (\<lambda>i. concat (map (\<lambda>j. map (\<lambda>k. (i, j, k)) [- f..f]) [- f..f])) [- f..f]))"
  by (simp add: fuzzy_offsets_def)

lemma length_concat_const:
  "(\<And>x. x \<in> set xs \<Longrightarrow> length (f x) = c) \<Longrightarrow> length (concat (map f xs)) = length xs * c"
  by (induction xs) auto

text \<open>
  C5: for every \<open>fuzzy_factor f \<ge> 0\<close>, \<open>fuzzy_offsets f\<close> yields exactly the cross product
  \<open>{-f..f} \<times> {-f..f} \<times> {-f..f}\<close> in nested lexicographic order, the outer axis varying
  slowest: the list holds exactly the members of the cross product and is strictly
  increasing in the lexicographic order of the triples. Hence it has \<open>(2f+1)\<^sup>3\<close> offsets, and
  \<open>fuzzy_offsets 0\<close> yields the single offset \<open>(0,0,0)\<close>.
\<close>

theorem fuzzy_offsets_cross_product:
  assumes "0 \<le> f"
  shows "\<exists>offsets. fuzzy_offsets f = Inr offsets \<and>
           set offsets = {- f..f} \<times> {- f..f} \<times> {- f..f} \<and>
           sorted_wrt (<) offsets \<and>
           int (length offsets) = (2 * f + 1) ^ 3 \<and>
           fuzzy_offsets 0 = Inr [(0, 0, 0)]"
proof -
  let ?A = "[- f..f]"
  let ?inner = "\<lambda>i. concat (map (\<lambda>j. map (\<lambda>k. (i, j, k)) ?A) ?A)"
  let ?offs = "concat (map ?inner ?A)"
  have eq: "fuzzy_offsets f = Inr ?offs"
    using assms by (rule fuzzy_offsets_nonneg)
  have set_eq: "set ?offs = {- f..f} \<times> {- f..f} \<times> {- f..f}"
    by auto
  have inner_sorted: "sorted_wrt (<) (?inner i)" for i :: int
    by (rule sorted_wrt_concat_map)
       (auto simp: sorted_wrt_upto_less sorted_wrt_map less_prod_def)
  have "sorted_wrt (<) ?offs"
    by (rule sorted_wrt_concat_map)
       (auto simp: sorted_wrt_upto_less inner_sorted less_prod_def)
  moreover have len_A: "int (length ?A) = 2 * f + 1"
    using assms by simp
  have "length (?inner i) = length ?A * length ?A" for i
    by (rule length_concat_const) simp
  then have "length ?offs = length ?A * (length ?A * length ?A)"
    by (intro length_concat_const) simp
  then have "int (length ?offs) = (2 * f + 1) ^ 3"
    using len_A by (simp add: power3_eq_cube del: length_upto)
  moreover have "fuzzy_offsets 0 = Inr [(0, 0, 0)]"
    by (simp add: fuzzy_offsets_def)
  ultimately show ?thesis
    using eq set_eq by blast
qed

theorem fuzzy_offsets_cross_product_witness:
  "fuzzy_offsets 1 =
     Inr [(- 1, - 1, - 1), (- 1, - 1, 0), (- 1, - 1, 1), (- 1, 0, - 1),
      (- 1, 0, 0), (- 1, 0, 1), (- 1, 1, - 1), (- 1, 1, 0), (- 1, 1, 1),
      (0, - 1, - 1), (0, - 1, 0), (0, - 1, 1), (0, 0, - 1), (0, 0, 0),
      (0, 0, 1), (0, 1, - 1), (0, 1, 0), (0, 1, 1), (1, - 1, - 1),
      (1, - 1, 0), (1, - 1, 1), (1, 0, - 1), (1, 0, 0), (1, 0, 1),
      (1, 1, - 1), (1, 1, 0), (1, 1, 1)] \<and>
   (\<exists>offsets. fuzzy_offsets 1 = Inr offsets \<and> length offsets = 27 \<and>
      (0, 0, 0) \<in> set offsets \<and> (- 1, - 1, - 1) \<in> set offsets)"
proof -
  have h: "(0::int) \<le> 1" by simp
  have "fuzzy_offsets 1 = Inr [(- 1, - 1, - 1), (- 1, - 1, 0), (- 1, - 1, 1), (- 1, 0, - 1),
      (- 1, 0, 0), (- 1, 0, 1), (- 1, 1, - 1), (- 1, 1, 0), (- 1, 1, 1),
      (0, - 1, - 1), (0, - 1, 0), (0, - 1, 1), (0, 0, - 1), (0, 0, 0),
      (0, 0, 1), (0, 1, - 1), (0, 1, 0), (0, 1, 1), (1, - 1, - 1),
      (1, - 1, 0), (1, - 1, 1), (1, 0, - 1), (1, 0, 0), (1, 0, 1),
      (1, 1, - 1), (1, 1, 0), (1, 1, 1)]"
    by code_simp
  moreover from fuzzy_offsets_cross_product [OF h]
  obtain offsets where "fuzzy_offsets 1 = Inr offsets"
    "set offsets = {- 1..1} \<times> {- 1..1} \<times> {- 1..1}" "int (length offsets) = (2 * 1 + 1) ^ 3"
    by auto
  then have "fuzzy_offsets 1 = Inr offsets \<and> length offsets = 27 \<and>
      (0, 0, 0) \<in> set offsets \<and> (- 1, - 1, - 1) \<in> set offsets"
    by simp
  ultimately show ?thesis by blast
qed

text \<open>
  C6: \<open>fuzzy_offsets (-1)\<close> and \<open>fuzzy_offsets (-2)\<close> each yield their seven fixed offsets in
  the documented order, and every other negative \<open>fuzzy_factor\<close> fails with ValueError
  (the spec's InvalidArgument).
\<close>

theorem fuzzy_offsets_special:
  "fuzzy_offsets (- 1) =
     Inr [(1, 2, 1), (1, 1, - 1), (1, - 1, - 1), (1, 0, - 1), (0, - 1, - 1),
          (- 1, - 1, - 1), (1, 2, 0)] \<and>
   fuzzy_offsets (- 2) =
     Inr [(0, 0, 0), (- 1, 0, 0), (1, 0, 0), (0, - 1, 0), (0, 1, 0), (0, 0, - 1),
          (0, 0, 1)] \<and>
   (\<forall>f. f < - 2 \<longrightarrow> fuzzy_offsets f = Inl ValueError)"
  by (simp add: fuzzy_offsets_def)

theorem fuzzy_offsets_special_witness:
  "fuzzy_offsets (- 3) = Inl ValueError"
  using fuzzy_offsets_special by simp

subsection \<open>The encoder as a run over its keys\<close>

lemma bind_simps [simp]: "bind (Inl e) f = Inl e" "bind (Inr x) f = f x"
  by (simp_all add: bind_def)

lemma for_each_append:
  "for_each (xs @ ys) body s = bind (for_each xs body s) (for_each ys body)"
  by (induction xs arbitrary: s) (auto split: sum.splits)

lemma for_each_concat_apply:
  "for_each xs (\<lambda>x. for_each (f x) body) s = for_each (concat (map f xs)) body s"
  by (induction xs arbitrary: s) (auto simp: for_each_append split: sum.splits)

lemma for_each_concat:
  "for_each xs (\<lambda>x. for_each (f x) body) = for_each (concat (map f xs)) body"
  by (rule ext) (rule for_each_concat_apply)

lemma for_each_nested:
  assumes "\<And>x. body x = for_each (f x) body'"
  shows "for_each xs body = for_each (concat (map f xs)) body'"
proof -
  have "body = (\<lambda>x. for_each (f x) body')"
    using assms by (intro ext) simp
  then show ?thesis
    by (simp only: for_each_concat)
qed

lemma for_each_map:
  "for_each (map f xs) body s = for_each xs (\<lambda>x. body (f x)) s"
  by (induction xs arbitrary: s) (auto split: sum.splits)


lemma singleton_bits_trace:
  "singleton_bits BIT_INFO ordered_features bits =
     for_each (singleton_trace ordered_features) (emit BIT_INFO) bits"
  by (simp add: singleton_bits_def singleton_trace_def for_each_map)

lemma pair_body_trace_apply:
  "pair_body bin_distance BINS BIT_INFO ordered_features dist_matrix pff a b bits =
     for_each (pair_trace_at bin_distance BINS ordered_features dist_matrix pff a b)
       (emit BIT_INFO) bits"
  by (simp add: pair_body_def pair_trace_at_def Let_def for_each_map bind_def split: sum.splits)

lemma pair_body_trace:
  "pair_body bin_distance BINS BIT_INFO ordered_features dist_matrix pff a b =
     for_each (pair_trace_at bin_distance BINS ordered_features dist_matrix pff a b)
       (emit BIT_INFO)"
  by (rule ext) (rule pair_body_trace_apply)

lemma pair_bits_trace:
  "pair_bits bin_distance BINS BIT_INFO ordered_features dist_matrix fuzzy_factor bits =
     for_each (pair_trace bin_distance BINS ordered_features dist_matrix fuzzy_factor)
       (emit BIT_INFO) bits"
proof -
  let ?pff = "if fuzzy_factor < 0 then 1 else fuzzy_factor"
  let ?n = "length ordered_features"
  have "for_each [a + 1..<?n]
          (pair_body bin_distance BINS BIT_INFO ordered_features dist_matrix ?pff a) =
        for_each (concat (map (pair_trace_at bin_distance BINS ordered_features dist_matrix
          ?pff a) [a + 1..<?n])) (emit BIT_INFO)" for a
    by (rule for_each_nested) (rule pair_body_trace)
  then show ?thesis
    unfolding pair_bits_def pair_trace_def Let_def
    by (simp only: for_each_nested)
qed

lemma triple_body_trace_apply:
  "triple_body bin_distance BINS BIT_INFO ordered_features dist_matrix offsets a b c bits =
     for_each (triple_trace_at bin_distance BINS ordered_features dist_matrix offsets a b c)
       (emit BIT_INFO) bits"
  by (simp add: triple_body_def triple_trace_at_def Let_def for_each_map bind_def split: sum.splits)

lemma triple_body_trace:
  "triple_body bin_distance BINS BIT_INFO ordered_features dist_matrix offsets a b c =
     for_each (triple_trace_at bin_distance BINS ordered_features dist_matrix offsets a b c)
       (emit BIT_INFO)"
  by (rule ext) (rule triple_body_trace_apply)

lemma triple_bits_trace:
  "triple_bits bin_distance BINS BIT_INFO ordered_features dist_matrix offsets bits =
     for_each (triple_trace bin_distance BINS ordered_features dist_matrix offsets)
       (emit BIT_INFO) bits"
proof -
  let ?n = "length ordered_features"
  let ?tr = "triple_trace_at bin_distance BINS ordered_features dist_matrix offsets"
  have inner: "for_each [b + 1..<?n]
          (triple_body bin_distance BINS BIT_INFO ordered_features dist_matrix offsets a b) =
        for_each (concat (map (?tr a b) [b + 1..<?n])) (emit BIT_INFO)" for a b
    by (rule for_each_nested) (rule triple_body_trace)
  have "for_each [a + 1..<?n - 1] (\<lambda>b. for_each [b + 1..<?n]
          (triple_body bin_distance BINS BIT_INFO ordered_features dist_matrix offsets a b)) =
        for_each (concat (map (\<lambda>b. concat (map (?tr a b) [b + 1..<?n])) [a + 1..<?n - 1]))
          (emit BIT_INFO)" for a
    by (rule for_each_nested) (rule inner)
  then show ?thesis
    unfolding triple_bits_def triple_trace_def Let_def
    by (simp only: for_each_nested)
qed

lemma from_pharmacophore_trace:
  "from_pharmacophore distance bin_distance BINS BIT_INFO pharmacophore subs fuzzy_factor =
     bind (for_each (key_trace distance bin_distance BINS pharmacophore subs fuzzy_factor)
             (emit BIT_INFO) {}) intbitset"
  by (cases "fuzzy_offsets fuzzy_factor")
     (simp_all add: from_pharmacophore_def key_trace_def Let_def for_each_append
        singleton_bits_trace pair_bits_trace triple_bits_trace emit_def bind_def
        split: sum.splits)

lemma emit_ok: "key_ok BIT_INFO k \<Longrightarrow> emit BIT_INFO k s = Inr (s \<union> bits_of BIT_INFO {k})"
  by (auto simp: key_ok_def emit_def add_bit_def bits_of_def split: sum.splits option.splits)

lemma emit_not_ok:
  "\<not> key_ok BIT_INFO k \<Longrightarrow>
     emit BIT_INFO k s = Inl (case k of Inl e \<Rightarrow> e | Inr ko \<Rightarrow> KeyError (the ko))"
  by (auto simp: key_ok_def emit_def add_bit_def split: sum.splits option.splits)

lemma bits_of_insert: "bits_of BIT_INFO (insert k ks) = bits_of BIT_INFO {k} \<union> bits_of BIT_INFO ks"
  by (auto simp: bits_of_def)

lemma bits_of_empty [simp]: "bits_of BIT_INFO {} = {}"
  by (simp add: bits_of_def)

lemma run_all_ok:
  "\<forall>k\<in>set ks. key_ok BIT_INFO k \<Longrightarrow>
     for_each ks (emit BIT_INFO) s = Inr (s \<union> bits_of BIT_INFO (set ks))"
proof (induction ks arbitrary: s)
  case Nil
  then show ?case by simp
next
  case (Cons k ks)
  then show ?case
    by (simp add: emit_ok bits_of_insert [of _ k "set ks"] Un_assoc)
qed

lemma run_first_failure:
  assumes "\<forall>k\<in>set pre. key_ok BIT_INFO k" and "\<not> key_ok BIT_INFO k"
  shows "for_each (pre @ k # post) (emit BIT_INFO) s =
           Inl (case k of Inl e \<Rightarrow> e | Inr ko \<Rightarrow> KeyError (the ko))"
  using assms by (simp add: for_each_append run_all_ok emit_not_ok)

lemma first_not_ok:
  assumes "\<not> (\<forall>k\<in>set ks. key_ok BIT_INFO k)"
  shows "\<exists>pre k post. ks = pre @ k # post \<and> \<not> key_ok BIT_INFO k \<and>
           (\<forall>k\<in>set pre. key_ok BIT_INFO k)"
proof -
  from assms have "\<exists>k\<in>set ks. \<not> key_ok BIT_INFO k" by simp
  then obtain pre k post where "ks = pre @ k # post" "\<not> key_ok BIT_INFO k"
    "\<forall>y\<in>set pre. \<not> \<not> key_ok BIT_INFO y"
    unfolding split_list_first_prop_iff by blast
  then show ?thesis by auto
qed

lemma run_not_ok:
  assumes "\<not> (\<forall>k\<in>set ks. key_ok BIT_INFO k)"
  shows "\<exists>k\<in>set ks. \<not> key_ok BIT_INFO k \<and>
           for_each ks (emit BIT_INFO) s =
             Inl (case k of Inl e \<Rightarrow> e | Inr ko \<Rightarrow> KeyError (the ko))"
proof -
  from first_not_ok [OF assms] obtain pre k post where *: "ks = pre @ k # post"
    "\<not> key_ok BIT_INFO k" "\<forall>k\<in>set pre. key_ok BIT_INFO k"
    by blast
  have "for_each (pre @ k # post) (emit BIT_INFO) s =
          Inl (case k of Inl e \<Rightarrow> e | Inr ko \<Rightarrow> KeyError (the ko))"
    using *(3,2) by (rule run_first_failure)
  moreover have "k \<in> set ks" using *(1) by simp
  ultimately show ?thesis using * by blast
qed

lemma run_Inr_iff:
  "for_each ks (emit BIT_INFO) s = Inr s' \<longleftrightarrow>
     (\<forall>k\<in>set ks. key_ok BIT_INFO k) \<and> s' = s \<union> bits_of BIT_INFO (set ks)"
proof (cases "\<forall>k\<in>set ks. key_ok BIT_INFO k")
  case True
  then have "for_each ks (emit BIT_INFO) s = Inr (s \<union> bits_of BIT_INFO (set ks))"
    by (rule run_all_ok)
  with True show ?thesis by auto
next
  case False
  from run_not_ok [OF this, of s] obtain e where "for_each ks (emit BIT_INFO) s = Inl e"
    by blast
  with False show ?thesis by simp
qed

lemma run_Inl_KeyError:
  assumes "for_each ks (emit BIT_INFO) s = Inl (KeyError bit_info)"
    and "\<And>e. Inl e \<in> set ks \<Longrightarrow> e = ValueError"
  shows "Inr (Some bit_info) \<in> set ks \<and> BIT_INFO bit_info = None"
proof -
  have "\<not> (\<forall>k\<in>set ks. key_ok BIT_INFO k)"
  proof
    assume "\<forall>k\<in>set ks. key_ok BIT_INFO k"
    then have "for_each ks (emit BIT_INFO) s = Inr (s \<union> bits_of BIT_INFO (set ks))"
      by (rule run_all_ok)
    with assms show False by simp
  qed
  from run_not_ok [OF this, of s] assms(1) obtain k where k: "k \<in> set ks" "\<not> key_ok BIT_INFO k"
    "(case k of Inl e \<Rightarrow> e | Inr ko \<Rightarrow> KeyError (the ko)) = KeyError bit_info"
    by auto
  show ?thesis
  proof (cases k)
    case (Inl e)
    with k(3) have "e = KeyError bit_info" by simp
    moreover from Inl k(1) assms(2) have "e = ValueError" by blast
    ultimately show ?thesis by simp
  next
    case (Inr ko)
    with k(2,3) have "ko = Some bit_info" "BIT_INFO bit_info = None"
      by (auto simp: key_ok_def split: option.splits)
    with k(1) Inr show ?thesis by simp
  qed
qed

lemma run_missing_key:
  assumes "Inr (Some bit_info) \<in> set ks" and "BIT_INFO bit_info = None"
    and "\<forall>k\<in>set (steps_before bit_info ks). key_ok BIT_INFO k"
  shows "for_each ks (emit BIT_INFO) s = Inl (KeyError bit_info)"
proof -
  from split_list_first [OF assms(1)] obtain pre post where
    ks: "ks = pre @ Inr (Some bit_info) # post" "Inr (Some bit_info) \<notin> set pre"
    by blast
  have "takeWhile (\<lambda>k. k \<noteq> Inr (Some bit_info)) (pre @ Inr (Some bit_info) # post) =
        pre @ takeWhile (\<lambda>k. k \<noteq> Inr (Some bit_info)) (Inr (Some bit_info) # post)"
    using ks(2) by (intro takeWhile_append2) auto
  then have "steps_before bit_info ks = pre"
    by (simp add: steps_before_def ks(1))
  with assms(3) have pre: "\<forall>k\<in>set pre. key_ok BIT_INFO k" by simp
  have "\<not> key_ok BIT_INFO (Inr (Some bit_info))"
    using assms(2) by (simp add: key_ok_def)
  with pre have "for_each (pre @ Inr (Some bit_info) # post) (emit BIT_INFO) s =
      Inl (case Inr (Some bit_info) of Inl e \<Rightarrow> e | Inr ko \<Rightarrow> KeyError (the ko))"
    by (rule run_first_failure)
  then show ?thesis by (simp add: ks(1))
qed

lemma steps_before_all:
  "Inr (Some bit_info) \<notin> set ks \<Longrightarrow> steps_before bit_info ks = ks"
  by (auto simp: steps_before_def takeWhile_eq_all_conv)

lemma intbitset_Inr_iff:
  "intbitset bits = Inr fp \<longleftrightarrow> (\<forall>b\<in>bits. b < 2 ^ 31) \<and> fp = bits"
  by (auto simp: intbitset_def)

lemma encoder_Inr_iff:
  "from_pharmacophore distance bin_distance BINS BIT_INFO P subs ff = Inr fp \<longleftrightarrow>
     (\<forall>k\<in>set (key_trace distance bin_distance BINS P subs ff). key_ok BIT_INFO k) \<and>
     fp = bits_of BIT_INFO (set (key_trace distance bin_distance BINS P subs ff)) \<and>
     (\<forall>b\<in>fp. b < 2 ^ 31)"
proof (cases "for_each (key_trace distance bin_distance BINS P subs ff) (emit BIT_INFO) {}")
  case (Inl e)
  have "\<not> (\<forall>k\<in>set (key_trace distance bin_distance BINS P subs ff). key_ok BIT_INFO k)"
  proof
    assume "\<forall>k\<in>set (key_trace distance bin_distance BINS P subs ff). key_ok BIT_INFO k"
    from run_all_ok [OF this, of "{}"] Inl show False by simp
  qed
  with Inl show ?thesis
    by (simp add: from_pharmacophore_trace)
next
  case (Inr bits)
  then show ?thesis
    using run_Inr_iff [of "key_trace distance bin_distance BINS P subs ff" BIT_INFO "{}" bits]
    by (auto simp: from_pharmacophore_trace intbitset_Inr_iff)
qed

lemma encoder_KeyError_iff:
  "from_pharmacophore distance bin_distance BINS BIT_INFO P subs ff = Inl (KeyError bit_info) \<longleftrightarrow>
     for_each (key_trace distance bin_distance BINS P subs ff) (emit BIT_INFO) {} =
       Inl (KeyError bit_info)"
  by (cases "for_each (key_trace distance bin_distance BINS P subs ff) (emit BIT_INFO) {}")
     (simp_all add: from_pharmacophore_trace intbitset_def)

lemma encoder_returns:
  assumes "\<forall>k\<in>set (key_trace distance bin_distance BINS P subs ff). key_ok BIT_INFO k"
    and "\<forall>bit_info v. BIT_INFO bit_info = Some v \<longrightarrow> v < 2 ^ 31"
  shows "from_pharmacophore distance bin_distance BINS BIT_INFO P subs ff =
           Inr (bits_of BIT_INFO (set (key_trace distance bin_distance BINS P subs ff)))"
  unfolding encoder_Inr_iff using assms by (auto simp: bits_of_def)

lemma encoder_missing_key:
  assumes "BIT_INFO bit_info = None"
    and "\<forall>k\<in>set (steps_before bit_info (key_trace distance bin_distance BINS P subs ff)).
           key_ok BIT_INFO k"
    and "(\<forall>k\<in>set (key_trace distance bin_distance BINS P subs ff). key_ok BIT_INFO k) \<Longrightarrow>
           Inr (Some bit_info) \<in> set (key_trace distance bin_distance BINS P subs ff)"
  shows "from_pharmacophore distance bin_distance BINS BIT_INFO P subs ff =
           Inl (KeyError bit_info)"
proof -
  have "Inr (Some bit_info) \<in> set (key_trace distance bin_distance BINS P subs ff)"
  proof (rule ccontr)
    assume no: "Inr (Some bit_info) \<notin> set (key_trace distance bin_distance BINS P subs ff)"
    with assms(2) have "\<forall>k\<in>set (key_trace distance bin_distance BINS P subs ff). key_ok BIT_INFO k"
      by (simp add: steps_before_all)
    with assms(3) no show False by blast
  qed
  from run_missing_key [OF this assms(1,2)] show ?thesis
    by (simp add: from_pharmacophore_trace)
qed

lemma calculate_distance_matrix_nth:
  "a < length fs \<Longrightarrow> b < length fs \<Longrightarrow>
     calculate_distance_matrix distance fs ! a ! b = distance (fs ! a) (fs ! b)"
  by (simp add: calculate_distance_matrix_def Let_def)

lemma in_pair_trace:
  "k \<in> set (pair_trace bin_distance BINS fs dm fuzzy_factor) \<longleftrightarrow>
     (\<exists>a b. a < b \<and> b < length fs \<and>
        k \<in> set (pair_trace_at bin_distance BINS fs dm
               (if fuzzy_factor < 0 then 1 else fuzzy_factor) a b))"
proof -
  have "(\<exists>a\<in>{0..<length fs - 1}. \<exists>b\<in>{a + 1..<length fs}. P a b) \<longleftrightarrow>
        (\<exists>a b. a < b \<and> b < length fs \<and> P a b)" for P
  proof
    assume "\<exists>a\<in>{0..<length fs - 1}. \<exists>b\<in>{a + 1..<length fs}. P a b"
    then obtain a b where "a + 1 \<le> b" "b < length fs" "P a b" by auto
    then have "a < b \<and> b < length fs \<and> P a b" by simp
    then show "\<exists>a b. a < b \<and> b < length fs \<and> P a b" by blast
  next
    assume "\<exists>a b. a < b \<and> b < length fs \<and> P a b"
    then obtain a b where *: "a < b" "b < length fs" "P a b" by blast
    then have "a \<in> {0..<length fs - 1}" "b \<in> {a + 1..<length fs}"
      by auto
    with * show "\<exists>a\<in>{0..<length fs - 1}. \<exists>b\<in>{a + 1..<length fs}. P a b"
      by blast
  qed
  then show ?thesis
    by (simp add: pair_trace_def Let_def)
qed

lemma in_triple_trace:
  "k \<in> set (triple_trace bin_distance BINS fs dm offsets) \<longleftrightarrow>
     (\<exists>a b c. a < b \<and> b < c \<and> c < length fs \<and>
        k \<in> set (triple_trace_at bin_distance BINS fs dm offsets a b c))"
proof -
  have "(\<exists>a\<in>{0..<length fs - 2}. \<exists>b\<in>{a + 1..<length fs - 1}. \<exists>c\<in>{b + 1..<length fs}. P a b c) \<longleftrightarrow>
        (\<exists>a b c. a < b \<and> b < c \<and> c < length fs \<and> P a b c)" for P
  proof
    assume "\<exists>a\<in>{0..<length fs - 2}. \<exists>b\<in>{a + 1..<length fs - 1}. \<exists>c\<in>{b + 1..<length fs}. P a b c"
    then obtain a b c where "a < length fs - 2" "a + 1 \<le> b" "b < length fs - 1" "b + 1 \<le> c"
      "c < length fs" "P a b c" by auto
    then have "a < b \<and> b < c \<and> c < length fs \<and> P a b c" by simp
    then show "\<exists>a b c. a < b \<and> b < c \<and> c < length fs \<and> P a b c" by blast
  next
    assume "\<exists>a b c. a < b \<and> b < c \<and> c < length fs \<and> P a b c"
    then obtain a b c where *: "a < b" "b < c" "c < length fs" "P a b c" by blast
    then have "a \<in> {0..<length fs - 2}" "b \<in> {a + 1..<length fs - 1}" "c \<in> {b + 1..<length fs}"
      by auto
    with * show "\<exists>a\<in>{0..<length fs - 2}. \<exists>b\<in>{a + 1..<length fs - 1}. \<exists>c\<in>{b + 1..<length fs}. P a b c"
      by blast
  qed
  then show ?thesis
    by (simp add: triple_trace_def Let_def)
qed

lemma success_trace:
  assumes "from_pharmacophore distance bin_distance BINS BIT_INFO P subs ff = Inr fp"
  shows "(\<forall>k\<in>set (key_trace distance bin_distance BINS P subs ff). key_ok BIT_INFO k) \<and>
         fp = bits_of BIT_INFO (set (key_trace distance bin_distance BINS P subs ff))"
  using assms by (simp add: encoder_Inr_iff)

lemma success_key:
  assumes "from_pharmacophore distance bin_distance BINS BIT_INFO P subs ff = Inr fp"
    and "k \<in> set (key_trace distance bin_distance BINS P subs ff)"
  shows "\<exists>ko. k = Inr ko \<and> (\<forall>bit_info. ko = Some bit_info \<longrightarrow>
           (\<exists>v. BIT_INFO bit_info = Some v \<and> v \<in> fp))"
proof -
  from success_trace [OF assms(1)] assms(2)
  have ok: "key_ok BIT_INFO k"
    and fp: "fp = bits_of BIT_INFO (set (key_trace distance bin_distance BINS P subs ff))"
    by auto
  from ok obtain ko where ko: "k = Inr ko"
    by (cases k) (auto simp: key_ok_def)
  have "\<exists>v. BIT_INFO bit_info = Some v \<and> v \<in> fp" if "ko = Some bit_info" for bit_info
  proof -
    from ok ko that obtain v where "BIT_INFO bit_info = Some v"
      by (auto simp: key_ok_def)
    moreover from this assms(2) ko that have "v \<in> fp"
      unfolding fp bits_of_def by blast
    ultimately show ?thesis by blast
  qed
  with ko show ?thesis by blast
qed

lemma success_offsets:
  assumes "from_pharmacophore distance bin_distance BINS BIT_INFO P subs ff = Inr fp"
  shows "\<exists>offsets. fuzzy_offsets ff = Inr offsets"
proof (cases "fuzzy_offsets ff")
  case (Inl e)
  then have "Inl e \<in> set (key_trace distance bin_distance BINS P subs ff)"
    by (simp add: key_trace_def Let_def)
  with success_trace [OF assms] have "key_ok BIT_INFO (Inl e)" by blast
  then show ?thesis by (simp add: key_ok_def)
next
  case (Inr offsets)
  then show ?thesis by blast
qed


lemma pair_in_trace:
  assumes "a < b" "b < length P"
    and "k \<in> set (pair_trace_at bin_distance BINS
                    (sort_key (\<lambda>f. FEATURE2BIT (kind f)) P)
                    (calculate_distance_matrix distance (sort_key (\<lambda>f. FEATURE2BIT (kind f)) P))
                    (if ff < 0 then 1 else ff) a b)"
  shows "k \<in> set (key_trace distance bin_distance BINS P True ff)"
proof -
  have "k \<in> set (pair_trace bin_distance BINS (sort_key (\<lambda>f. FEATURE2BIT (kind f)) P)
          (calculate_distance_matrix distance (sort_key (\<lambda>f. FEATURE2BIT (kind f)) P)) ff)"
    unfolding in_pair_trace using assms
    by (intro exI [of _ a] exI [of _ b]) simp
  then show ?thesis
    by (simp add: key_trace_def Let_def)
qed

lemma triple_in_trace:
  assumes "a < b" "b < c" "c < length P" "fuzzy_offsets ff = Inr offsets"
    and "k \<in> set (triple_trace_at bin_distance BINS
                    (sort_key (\<lambda>f. FEATURE2BIT (kind f)) P)
                    (calculate_distance_matrix distance (sort_key (\<lambda>f. FEATURE2BIT (kind f)) P))
                    offsets a b c)"
  shows "k \<in> set (key_trace distance bin_distance BINS P subs ff)"
proof -
  have "k \<in> set (triple_trace bin_distance BINS (sort_key (\<lambda>f. FEATURE2BIT (kind f)) P)
          (calculate_distance_matrix distance (sort_key (\<lambda>f. FEATURE2BIT (kind f)) P)) offsets)"
    unfolding in_triple_trace using assms
    by (intro exI [of _ a] exI [of _ b] exI [of _ c]) simp
  then show ?thesis
    using assms(4) by (simp add: key_trace_def Let_def)
qed

lemma pair_trace_at_matrix:
  assumes "a < length fs" "b < length fs"
  shows "pair_trace_at bin_distance BINS fs (calculate_distance_matrix distance fs) r a b =
     (let bin_id = int (bin_distance (distance (fs ! a) (fs ! b)) BINS);
          ids = [FEATURE2BIT (kind (fs ! a)), FEATURE2BIT (kind (fs ! b))]
      in pair_bit_info ids (bin_id + 97) #
         map (pair_fuzzy_bit_info (int (length BINS)) ids bin_id) [- r..r])"
  using assms by (simp add: pair_trace_at_def Let_def calculate_distance_matrix_nth)

lemma sorted_tags:
  assumes "a < b" "b < length P"
  shows "FEATURE2BIT (kind (sort_key (\<lambda>f. FEATURE2BIT (kind f)) P ! a)) \<le>
         FEATURE2BIT (kind (sort_key (\<lambda>f. FEATURE2BIT (kind f)) P ! b))"
proof -
  let ?o = "sort_key (\<lambda>f. FEATURE2BIT (kind f)) P"
  have "sorted (map (\<lambda>f. FEATURE2BIT (kind f)) ?o)" by (rule sorted_sort_key)
  then have "map (\<lambda>f. FEATURE2BIT (kind f)) ?o ! a \<le> map (\<lambda>f. FEATURE2BIT (kind f)) ?o ! b"
    using assms by (intro sorted_nth_mono) auto
  then show ?thesis using assms by simp
qed

lemma pair_base_found:
  assumes "from_pharmacophore distance bin_distance BINS BIT_INFO P True ff = Inr fp"
    and "a < b" and "b < length P"
  shows "\<exists>c v. chr (int (bin_distance
                    (distance (sort_key (\<lambda>f. FEATURE2BIT (kind f)) P ! a)
                              (sort_key (\<lambda>f. FEATURE2BIT (kind f)) P ! b)) BINS) + 97) = Inr c \<and>
           BIT_INFO [FEATURE2BIT (kind (sort_key (\<lambda>f. FEATURE2BIT (kind f)) P ! a)), c,
                     FEATURE2BIT (kind (sort_key (\<lambda>f. FEATURE2BIT (kind f)) P ! b))] = Some v \<and>
           v \<in> fp"
proof -
  let ?o = "sort_key (\<lambda>f. FEATURE2BIT (kind f)) P"
  let ?ids = "[FEATURE2BIT (kind (?o ! a)), FEATURE2BIT (kind (?o ! b))]"
  let ?n = "int (bin_distance (distance (?o ! a) (?o ! b)) BINS) + 97"
  have "pair_bit_info ?ids ?n \<in> set (pair_trace_at bin_distance BINS ?o
          (calculate_distance_matrix distance ?o) (if ff < 0 then 1 else ff) a b)"
    using assms(2,3) by (simp add: pair_trace_at_matrix Let_def)
  then have "pair_bit_info ?ids ?n \<in> set (key_trace distance bin_distance BINS P True ff)"
    by (rule pair_in_trace [OF assms(2,3)])
  from success_key [OF assms(1) this]
  obtain ko where ko: "pair_bit_info ?ids ?n = Inr ko"
    "\<forall>bit_info. ko = Some bit_info \<longrightarrow> (\<exists>v. BIT_INFO bit_info = Some v \<and> v \<in> fp)"
    by blast
  then obtain c where "chr ?n = Inr c" "ko = Some [?ids ! 0, c, ?ids ! 1]"
    by (auto simp: pair_bit_info_def split: sum.splits)
  with ko(2) show ?thesis
    by auto
qed


lemma example_sorted:
  "sort_key (\<lambda>f. FEATURE2BIT (kind f)) [fP, fH, fA] = [fA, fH, fP]"
  by code_simp

lemma example_encoding:
  "from_pharmacophore example_distance bin_distance_spec example_bins (example_bit_info 4)
     [fP, fH, fA] True 0 =
   Inr {1, 8, 16, 1096, 1168, 8304, 538183780}"
  by code_simp

subsection \<open>Which keys are built, and which errors can occur\<close>

lemma in_key_trace:
  "k \<in> set (key_trace distance bin_distance BINS P subs ff) \<longleftrightarrow>
     (subs \<and> (\<exists>f\<in>set P. k = Inr (Some [FEATURE2BIT (kind f)]))) \<or>
     (subs \<and> (\<exists>a b. a < b \<and> b < length P \<and>
        k \<in> set (pair_trace_at bin_distance BINS (sort_key (\<lambda>f. FEATURE2BIT (kind f)) P)
                 (calculate_distance_matrix distance (sort_key (\<lambda>f. FEATURE2BIT (kind f)) P))
                 (if ff < 0 then 1 else ff) a b))) \<or>
     (\<exists>e. fuzzy_offsets ff = Inl e \<and> k = Inl e) \<or>
     (\<exists>offsets a b c. fuzzy_offsets ff = Inr offsets \<and> a < b \<and> b < c \<and> c < length P \<and>
        k \<in> set (triple_trace_at bin_distance BINS (sort_key (\<lambda>f. FEATURE2BIT (kind f)) P)
                 (calculate_distance_matrix distance (sort_key (\<lambda>f. FEATURE2BIT (kind f)) P))
                 offsets a b c))"
  by (cases "fuzzy_offsets ff")
     (auto simp: key_trace_def Let_def singleton_trace_def in_pair_trace in_triple_trace)

lemma chr_Inl: "chr n = Inl e \<Longrightarrow> e = ValueError"
  by (simp add: chr_def split: if_splits)

lemma pair_bit_info_Inl: "pair_bit_info ids n = Inl e \<Longrightarrow> e = ValueError"
  by (auto simp: pair_bit_info_def split: sum.splits dest: chr_Inl)

lemma pair_fuzzy_bit_info_Inl: "pair_fuzzy_bit_info nr_bins ids bin_id i = Inl e \<Longrightarrow> e = ValueError"
  by (auto simp: pair_fuzzy_bit_info_def split: if_splits dest: pair_bit_info_Inl)

lemma triple_bit_info_Inl: "triple_bit_info ds = Inl e \<Longrightarrow> e = ValueError"
  by (auto simp: triple_bit_info_def bind_def split: sum.splits dest: chr_Inl)

lemma fuzzy_triple_bit_info_Inl:
  "fuzzy_triple_bit_info nr_bins ds ijk = Inl e \<Longrightarrow> e = ValueError"
  by (auto simp: fuzzy_triple_bit_info_def Let_def split: prod.splits if_splits
      dest: triple_bit_info_Inl)

lemma fuzzy_offsets_Inl: "fuzzy_offsets ff = Inl e \<Longrightarrow> e = ValueError"
  by (simp add: fuzzy_offsets_def split: if_splits)

lemma pair_trace_at_Inl:
  "Inl e \<in> set (pair_trace_at bin_distance BINS fs dm r a b) \<Longrightarrow> e = ValueError"
  by (auto simp: pair_trace_at_def Let_def dest: pair_bit_info_Inl pair_fuzzy_bit_info_Inl
      dest!: sym [of "Inl e"])

lemma triple_trace_at_Inl:
  "Inl e \<in> set (triple_trace_at bin_distance BINS fs dm offsets a b c) \<Longrightarrow> e = ValueError"
  by (auto simp: triple_trace_at_def Let_def dest: triple_bit_info_Inl fuzzy_triple_bit_info_Inl
      dest!: sym [of "Inl e"])

lemma key_trace_Inl:
  "Inl e \<in> set (key_trace distance bin_distance BINS P subs ff) \<Longrightarrow> e = ValueError"
  unfolding in_key_trace
  by (auto dest: pair_trace_at_Inl triple_trace_at_Inl fuzzy_offsets_Inl)

lemma failure_KeyError:
  assumes "from_pharmacophore distance bin_distance BINS BIT_INFO P subs ff = Inl (KeyError bit_info)"
  shows "Inr (Some bit_info) \<in> set (key_trace distance bin_distance BINS P subs ff) \<and>
         BIT_INFO bit_info = None"
  using assms unfolding encoder_KeyError_iff
  by (rule run_Inl_KeyError) (rule key_trace_Inl)

lemma encoder_missing_step:
  assumes "BIT_INFO bit_info = None"
    and "\<forall>k\<in>set (steps_before bit_info (key_trace distance bin_distance BINS P subs ff)).
           key_ok BIT_INFO k"
    and "s \<in> set (key_trace distance bin_distance BINS P subs ff) \<or>
         (\<exists>e. Inl e \<in> set (key_trace distance bin_distance BINS P subs ff))"
    and "s = Inr (Some bit_info) \<or> (\<exists>e. s = Inl e)"
  shows "from_pharmacophore distance bin_distance BINS BIT_INFO P subs ff =
           Inl (KeyError bit_info)"
  using assms(1,2)
proof (rule encoder_missing_key)
  assume ok: "\<forall>k\<in>set (key_trace distance bin_distance BINS P subs ff). key_ok BIT_INFO k"
  have "Inl e \<notin> set (key_trace distance bin_distance BINS P subs ff)" for e
  proof
    assume "Inl e \<in> set (key_trace distance bin_distance BINS P subs ff)"
    with ok have "key_ok BIT_INFO (Inl e)" by blast
    then show False by (simp add: key_ok_def)
  qed
  with assms(3) have s: "s \<in> set (key_trace distance bin_distance BINS P subs ff)"
    by blast
  with ok have "key_ok BIT_INFO s" by blast
  with assms(4) have "s = Inr (Some bit_info)"
    by (auto simp: key_ok_def)
  with s show "Inr (Some bit_info) \<in> set (key_trace distance bin_distance BINS P subs ff)"
    by simp
qed


text \<open>
  C8: a key that is built and is absent from the dictionary aborts the call at once with
  KeyError for that key. The encoder is the run of \<open>emit\<close> over its key sequence, followed
  by \<open>intbitset\<close>; when the steps before a key all succeeded and the key is absent, the
  result is the KeyError of this key. A call that returns a fingerprint found every key it built, and the
  fingerprint holds exactly the bits of these keys: no bit is skipped, nothing partial is
  returned. A KeyError result names a key that was built and is absent.
\<close>

theorem unknown_key_aborts:
  "from_pharmacophore distance bin_distance BINS BIT_INFO P subs ff =
     bind (for_each (key_trace distance bin_distance BINS P subs ff) (emit BIT_INFO) {})
       intbitset \<and>
   (\<forall>pre bit_info post.
      key_trace distance bin_distance BINS P subs ff = pre @ Inr (Some bit_info) # post \<and>
      (\<forall>k\<in>set pre. key_ok BIT_INFO k) \<and> BIT_INFO bit_info = None \<longrightarrow>
      from_pharmacophore distance bin_distance BINS BIT_INFO P subs ff =
        Inl (KeyError bit_info)) \<and>
   (\<forall>fp. from_pharmacophore distance bin_distance BINS BIT_INFO P subs ff = Inr fp \<longrightarrow>
      (\<forall>bit_info. Inr (Some bit_info) \<in> set (key_trace distance bin_distance BINS P subs ff) \<longrightarrow>
         (\<exists>v. BIT_INFO bit_info = Some v \<and> v \<in> fp)) \<and>
      (\<forall>v\<in>fp. \<exists>bit_info.
         Inr (Some bit_info) \<in> set (key_trace distance bin_distance BINS P subs ff) \<and>
         BIT_INFO bit_info = Some v)) \<and>
   (\<forall>bit_info.
      from_pharmacophore distance bin_distance BINS BIT_INFO P subs ff = Inl (KeyError bit_info) \<longrightarrow>
      Inr (Some bit_info) \<in> set (key_trace distance bin_distance BINS P subs ff) \<and>
      BIT_INFO bit_info = None)"
proof -
  let ?r = "from_pharmacophore distance bin_distance BINS BIT_INFO P subs ff"
  let ?t = "key_trace distance bin_distance BINS P subs ff"
  have run: "?r = bind (for_each ?t (emit BIT_INFO) {}) intbitset"
    by (rule from_pharmacophore_trace)
  have first: "?r = Inl (KeyError bit_info)"
    if "?t = pre @ Inr (Some bit_info) # post \<and> (\<forall>k\<in>set pre. key_ok BIT_INFO k) \<and>
        BIT_INFO bit_info = None" for pre bit_info post
  proof -
    from that have "\<not> key_ok BIT_INFO (Inr (Some bit_info))"
      by (simp add: key_ok_def)
    with that have "for_each (pre @ Inr (Some bit_info) # post) (emit BIT_INFO) {} =
        Inl (case Inr (Some bit_info) of Inl e \<Rightarrow> e | Inr ko \<Rightarrow> KeyError (the ko))"
      by (intro run_first_failure) simp_all
    with that show ?thesis
      by (simp add: from_pharmacophore_trace)
  qed
  have found: "\<exists>v. BIT_INFO bit_info = Some v \<and> v \<in> fp"
    if "?r = Inr fp" "Inr (Some bit_info) \<in> set ?t" for fp bit_info
    using success_key [OF that] by simp
  have exact: "\<exists>bit_info. Inr (Some bit_info) \<in> set ?t \<and> BIT_INFO bit_info = Some v"
    if "?r = Inr fp" "v \<in> fp" for fp v
    using success_trace [OF that(1)] that(2) by (auto simp: bits_of_def)
  have missing: "Inr (Some bit_info) \<in> set ?t \<and> BIT_INFO bit_info = None"
    if "?r = Inl (KeyError bit_info)" for bit_info
    using that by (rule failure_KeyError)
  show ?thesis
    using run first found exact missing by blast
qed

lemma example_trace_out_of_range:
  "key_trace example_distance bin_distance_spec example_bins [fP, fH, fR] False 0 =
     [] @ Inr (Some [82, 72, 80, 99, 101, 101]) # [Inr None]"
  by code_simp

theorem unknown_key_aborts_witness:
  "from_pharmacophore example_distance bin_distance_spec example_bins (example_bit_info 4)
     [fP, fH, fR] False 0 = Inl (KeyError [82, 72, 80, 99, 101, 101])"
proof -
  have none: "example_bit_info 4 [82, 72, 80, 99, 101, 101] = None"
    by code_simp
  have pre: "\<forall>k\<in>set []. key_ok (example_bit_info 4) k"
    by simp
  have "key_trace example_distance bin_distance_spec example_bins [fP, fH, fR] False 0 =
          [] @ Inr (Some [82, 72, 80, 99, 101, 101]) # [Inr None] \<and>
        (\<forall>k\<in>set []. key_ok (example_bit_info 4) k) \<and>
        example_bit_info 4 [82, 72, 80, 99, 101, 101] = None \<longrightarrow>
        from_pharmacophore example_distance bin_distance_spec example_bins (example_bit_info 4)
          [fP, fH, fR] False 0 = Inl (KeyError [82, 72, 80, 99, 101, 101])"
    using unknown_key_aborts [of example_distance bin_distance_spec example_bins
      "example_bit_info 4" "[fP, fH, fR]" False 0]
    by blast
  with example_trace_out_of_range none pre show ?thesis
    by blast
qed

subsection \<open>Singleton, pair and triple bits\<close>


lemma triple_trace_at_matrix:
  assumes "a < length fs" "b < length fs" "c < length fs"
  shows "triple_distances bin_distance BINS fs (calculate_distance_matrix distance fs) a b c =
     sort_distances
       [\<lparr>id' = FEATURE2BIT (kind (fs ! c)),
         bin = int (bin_distance (distance (fs ! a) (fs ! b)) BINS)\<rparr>,
        \<lparr>id' = FEATURE2BIT (kind (fs ! b)),
         bin = int (bin_distance (distance (fs ! a) (fs ! c)) BINS)\<rparr>,
        \<lparr>id' = FEATURE2BIT (kind (fs ! a)),
         bin = int (bin_distance (distance (fs ! b) (fs ! c)) BINS)\<rparr>]"
  using assms by (simp add: triple_distances_def calculate_distance_matrix_nth)

lemma triple_base_found:
  assumes "from_pharmacophore distance bin_distance BINS BIT_INFO P subs ff = Inr fp"
    and "a < b" and "b < c" and "c < length P"
  shows "\<exists>k v. triple_bit_info
                 (triple_distances bin_distance BINS (sort_key (\<lambda>f. FEATURE2BIT (kind f)) P)
                    (calculate_distance_matrix distance (sort_key (\<lambda>f. FEATURE2BIT (kind f)) P))
                    a b c) = Inr (Some k) \<and>
               BIT_INFO k = Some v \<and> v \<in> fp"
proof -
  let ?o = "sort_key (\<lambda>f. FEATURE2BIT (kind f)) P"
  let ?ds = "triple_distances bin_distance BINS ?o (calculate_distance_matrix distance ?o) a b c"
  from success_offsets [OF assms(1)] obtain offsets where offs: "fuzzy_offsets ff = Inr offsets"
    by blast
  have "triple_bit_info ?ds \<in> set (triple_trace_at bin_distance BINS ?o
          (calculate_distance_matrix distance ?o) offsets a b c)"
    by (simp add: triple_trace_at_def Let_def)
  then have "triple_bit_info ?ds \<in> set (key_trace distance bin_distance BINS P subs ff)"
    by (rule triple_in_trace [OF assms(2,3,4) offs])
  from success_key [OF assms(1) this]
  obtain ko where ko: "triple_bit_info ?ds = Inr ko"
    "\<forall>bit_info. ko = Some bit_info \<longrightarrow> (\<exists>v. BIT_INFO bit_info = Some v \<and> v \<in> fp)"
    by blast
  then obtain k where "ko = Some k"
    by (auto simp: triple_bit_info_def bind_def split: sum.splits)
  with ko show ?thesis by auto
qed

lemma triple_bit_info_length: "triple_bit_info ds = Inr (Some k) \<Longrightarrow> length k = 6"
  by (auto simp: triple_bit_info_def bind_def split: sum.splits)

lemma fuzzy_triple_bit_info_length:
  "fuzzy_triple_bit_info nr_bins ds ijk = Inr (Some k) \<Longrightarrow> length k = 6"
  by (auto simp: fuzzy_triple_bit_info_def Let_def split: prod.splits if_splits
      dest: triple_bit_info_length)

lemma triple_trace_at_length:
  "Inr (Some k) \<in> set (triple_trace_at bin_distance BINS fs dm offsets a b c) \<Longrightarrow> length k = 6"
  by (auto simp: triple_trace_at_def Let_def
      dest: triple_bit_info_length fuzzy_triple_bit_info_length dest!: sym [of "Inr (Some k)"])




lemma fuzzy_offsets_cases:
  "fuzzy_offsets ff = Inl ValueError \<and> ff < - 2 \<or> (\<exists>offsets. fuzzy_offsets ff = Inr offsets) \<and> - 2 \<le> ff"
  by (simp add: fuzzy_offsets_def)




lemma triple_base_in_trace:
  assumes "a < b" and "b < c" and "c < length P"
  shows "triple_bit_info
           (triple_distances bin_distance BINS (sort_key (\<lambda>f. FEATURE2BIT (kind f)) P)
              (calculate_distance_matrix distance (sort_key (\<lambda>f. FEATURE2BIT (kind f)) P))
              a b c)
           \<in> set (key_trace distance bin_distance BINS P subs ff) \<or>
         (\<exists>e. Inl e \<in> set (key_trace distance bin_distance BINS P subs ff))"
proof (cases "fuzzy_offsets ff")
  case (Inl e)
  then have "Inl e \<in> set (key_trace distance bin_distance BINS P subs ff)"
    by (simp add: key_trace_def Let_def)
  then show ?thesis by blast
next
  case (Inr offsets)
  let ?o = "sort_key (\<lambda>f. FEATURE2BIT (kind f)) P"
  let ?ds = "triple_distances bin_distance BINS ?o (calculate_distance_matrix distance ?o) a b c"
  have "triple_bit_info ?ds \<in> set (triple_trace_at bin_distance BINS ?o
          (calculate_distance_matrix distance ?o) offsets a b c)"
    by (simp add: triple_trace_at_def Let_def)
  then have "triple_bit_info ?ds \<in> set (key_trace distance bin_distance BINS P subs ff)"
    by (rule triple_in_trace [OF assms Inr])
  then show ?thesis by blast
qed

lemma triple_base_missing:
  assumes "a < b" and "b < c" and "c < length P"
    and "triple_bit_info
           (triple_distances bin_distance BINS (sort_key (\<lambda>f. FEATURE2BIT (kind f)) P)
              (calculate_distance_matrix distance (sort_key (\<lambda>f. FEATURE2BIT (kind f)) P))
              a b c) = Inr (Some bit_info) \<or>
         (\<exists>e. triple_bit_info
           (triple_distances bin_distance BINS (sort_key (\<lambda>f. FEATURE2BIT (kind f)) P)
              (calculate_distance_matrix distance (sort_key (\<lambda>f. FEATURE2BIT (kind f)) P))
              a b c) = Inl e)"
    and "BIT_INFO bit_info = None"
    and "\<forall>s\<in>set (steps_before bit_info (key_trace distance bin_distance BINS P subs ff)).
           key_ok BIT_INFO s"
  shows "from_pharmacophore distance bin_distance BINS BIT_INFO P subs ff =
           Inl (KeyError bit_info)"
  using assms(5,6) triple_base_in_trace [OF assms(1-3)] assms(4)
  by (rule encoder_missing_step)

lemma encoder_returns_some:
  assumes "\<forall>s\<in>set (key_trace distance bin_distance BINS P subs ff). key_ok BIT_INFO s"
    and "\<forall>key v. BIT_INFO key = Some v \<longrightarrow> v < 2 ^ 31"
  shows "\<exists>fp. from_pharmacophore distance bin_distance BINS BIT_INFO P subs ff = Inr fp"
  using encoder_returns [OF assms] by blast

subsection \<open>Triple keys\<close>

lemma mset_sort_distances: "mset (sort_distances ds) = mset ds"
  by (simp add: sort_distances_def)

lemma sorted_sort_distances: "sorted (map (\<lambda>d. (bin d, id' d)) (sort_distances ds))"
  by (simp add: sort_distances_def sorted_sort_key)

lemma length_sort_distances: "length (sort_distances ds) = length ds"
  by (simp add: sort_distances_def)

lemma chr_eq:
  "chr n = (if 0 \<le> n \<and> n < 1114112 then Inr (nat n) else Inl ValueError)"
  by (simp add: chr_def)

lemma triple_bit_info_eq:
  "triple_bit_info ds =
     (if (\<forall>i<3. 0 \<le> bin (ds ! i) + 97 \<and> bin (ds ! i) + 97 < 1114112)
      then Inr (Some [id' (ds ! 0), id' (ds ! 1), id' (ds ! 2),
                      nat (bin (ds ! 0) + 97), nat (bin (ds ! 1) + 97), nat (bin (ds ! 2) + 97)])
      else Inl ValueError)"
proof -
  have "(\<forall>i<3. P i) \<longleftrightarrow> P 0 \<and> P 1 \<and> P (2::nat)" for P
    by (auto simp: numeral_3_eq_3 less_Suc_eq numeral_2_eq_2)
  then show ?thesis
    by (simp add: triple_bit_info_def chr_def)
qed

lemma triple_bit_info_not_skipped: "triple_bit_info ds \<noteq> Inr None"
  by (simp add: triple_bit_info_eq)

lemma fuzzy_triple_bit_info_eq:
  "fuzzy_triple_bit_info nr_bins ds (i, j, k) =
     (if nr_bins \<le> bin (ds ! 0) + i \<or> bin (ds ! 0) + i < 0 \<or>
         nr_bins \<le> bin (ds ! 1) + j \<or> bin (ds ! 1) + j < 0 \<or>
         nr_bins \<le> bin (ds ! 2) + k \<or> bin (ds ! 2) + k < 0
      then Inr None
      else triple_bit_info (sort_distances
             [\<lparr>id' = id' (ds ! 0), bin = bin (ds ! 0) + i\<rparr>,
              \<lparr>id' = id' (ds ! 1), bin = bin (ds ! 1) + j\<rparr>,
              \<lparr>id' = id' (ds ! 2), bin = bin (ds ! 2) + k\<rparr>]))"
  by (simp add: fuzzy_triple_bit_info_def Let_def)

lemma key_code_bound: "key_code k < 32 ^ length k"
proof (induction k rule: rev_induct)
  case Nil
  then show ?case by (simp add: key_code_def)
next
  case (snoc c k)
  have "c mod 32 < 32" by simp
  moreover have "key_code k + 1 \<le> 32 ^ length k"
    using snoc by simp
  then have "(key_code k + 1) * 32 \<le> 32 ^ length k * 32"
    by (rule mult_le_mono1)
  ultimately have "key_code k * 32 + c mod 32 < 32 ^ length k * 32"
    by simp
  then show ?case
    by (simp add: key_code_def)
qed

lemma example_bit_info_fits: "\<forall>key v. example_bit_info m key = Some v \<longrightarrow> v < 2 ^ 31"
proof (intro allI impI)
  fix key v
  assume "example_bit_info m key = Some v"
  then have v: "v = key_code key" and len: "length key \<le> 6"
    by (auto simp: example_bit_info_def split: if_splits)
  have "key_code key < 32 ^ length key"
    by (rule key_code_bound)
  also have "(32::nat) ^ length key \<le> 32 ^ 6"
    using len by (intro power_increasing) simp_all
  finally show "v < 2 ^ 31"
    unfolding v by simp
qed

lemma fuzzy_triple_in_trace:
  assumes "a < b" and "b < c" and "c < length P"
    and "fuzzy_offsets ff = Inr offsets" and "ijk \<in> set offsets"
  shows "fuzzy_triple_bit_info (int (length BINS))
           (triple_distances bin_distance BINS (sort_key (\<lambda>f. FEATURE2BIT (kind f)) P)
              (calculate_distance_matrix distance (sort_key (\<lambda>f. FEATURE2BIT (kind f)) P))
              a b c) ijk
         \<in> set (key_trace distance bin_distance BINS P subs ff)"
proof -
  let ?o = "sort_key (\<lambda>f. FEATURE2BIT (kind f)) P"
  let ?ds = "triple_distances bin_distance BINS ?o (calculate_distance_matrix distance ?o) a b c"
  have "fuzzy_triple_bit_info (int (length BINS)) ?ds ijk \<in> set (triple_trace_at bin_distance BINS ?o
          (calculate_distance_matrix distance ?o) offsets a b c)"
    using assms(5) by (simp add: triple_trace_at_def Let_def)
  then show ?thesis
    by (rule triple_in_trace [OF assms(1-4)])
qed

text \<open>
  C2: for a triple \<open>a < b < c\<close> of \<open>ordered_features\<close> the base key is built from three
  observations, the tag of each feature with the bin of the distance between the other two;
  \<open>distances\<close> holds exactly these three, in ascending order of (bin, tag). The key
  \<open>bit_info\<close> is the three tags followed by the three bin characters, each the bin index
  plus 97. The encoder looks this key up: when the key is absent from the dictionary and
  every step before the first one that builds it succeeds, the call raises KeyError with
  this key. Every call that returns a fingerprint found the key and put its bit into the
  fingerprint, and the call does return one when every key it builds is in the dictionary
  and the positions of the dictionary fit \<open>intbitset\<close>.
\<close>

theorem triple_base_key:
  assumes "a < b" and "b < c" and "c < length P"
    and "ordered_features = sort_key (\<lambda>f. FEATURE2BIT (kind f)) P"
    and "distances = triple_distances bin_distance BINS ordered_features
           (calculate_distance_matrix distance ordered_features) a b c"
    and "bit_info = [id' (distances ! 0), id' (distances ! 1), id' (distances ! 2),
                     nat (bin (distances ! 0) + 97), nat (bin (distances ! 1) + 97),
                     nat (bin (distances ! 2) + 97)]"
  shows "mset distances =
           {#\<lparr>id' = FEATURE2BIT (kind (ordered_features ! a)),
              bin = int (bin_distance (distance (ordered_features ! b) (ordered_features ! c)) BINS)\<rparr>,
             \<lparr>id' = FEATURE2BIT (kind (ordered_features ! b)),
              bin = int (bin_distance (distance (ordered_features ! a) (ordered_features ! c)) BINS)\<rparr>,
             \<lparr>id' = FEATURE2BIT (kind (ordered_features ! c)),
              bin = int (bin_distance (distance (ordered_features ! a) (ordered_features ! b)) BINS)\<rparr>#} \<and>
         sorted (map (\<lambda>d. (bin d, id' d)) distances) \<and>
         triple_bit_info distances =
           (if \<forall>i<3. 0 \<le> bin (distances ! i) + 97 \<and> bin (distances ! i) + 97 < 1114112
            then Inr (Some bit_info) else Inl ValueError) \<and>
         (BIT_INFO bit_info = None \<and>
          (\<forall>s\<in>set (steps_before bit_info (key_trace distance bin_distance BINS P subs ff)).
             key_ok BIT_INFO s) \<longrightarrow>
          from_pharmacophore distance bin_distance BINS BIT_INFO P subs ff =
            Inl (KeyError bit_info)) \<and>
         (\<forall>fp. from_pharmacophore distance bin_distance BINS BIT_INFO P subs ff = Inr fp \<longrightarrow>
            (\<exists>v. BIT_INFO bit_info = Some v \<and> v \<in> fp)) \<and>
         ((\<forall>s\<in>set (key_trace distance bin_distance BINS P subs ff). key_ok BIT_INFO s) \<and>
          (\<forall>key v. BIT_INFO key = Some v \<longrightarrow> v < 2 ^ 31) \<longrightarrow>
          (\<exists>fp v. from_pharmacophore distance bin_distance BINS BIT_INFO P subs ff = Inr fp \<and>
             BIT_INFO bit_info = Some v \<and> v \<in> fp))"
proof -
  let ?r = "from_pharmacophore distance bin_distance BINS BIT_INFO P subs ff"
  let ?t = "key_trace distance bin_distance BINS P subs ff"
  have len: "a < length ordered_features" "b < length ordered_features"
    "c < length ordered_features"
    using assms(1-4) by simp_all
  have obs: "mset distances =
           {#\<lparr>id' = FEATURE2BIT (kind (ordered_features ! a)),
              bin = int (bin_distance (distance (ordered_features ! b) (ordered_features ! c)) BINS)\<rparr>,
             \<lparr>id' = FEATURE2BIT (kind (ordered_features ! b)),
              bin = int (bin_distance (distance (ordered_features ! a) (ordered_features ! c)) BINS)\<rparr>,
             \<lparr>id' = FEATURE2BIT (kind (ordered_features ! c)),
              bin = int (bin_distance (distance (ordered_features ! a) (ordered_features ! b)) BINS)\<rparr>#}"
    unfolding assms(5) triple_trace_at_matrix [OF len] mset_sort_distances by simp
  have srt: "sorted (map (\<lambda>d. (bin d, id' d)) distances)"
    unfolding assms(5) triple_distances_def by (rule sorted_sort_distances)
  have key: "triple_bit_info distances =
           (if \<forall>i<3. 0 \<le> bin (distances ! i) + 97 \<and> bin (distances ! i) + 97 < 1114112
            then Inr (Some bit_info) else Inl ValueError)"
    unfolding assms(6) by (rule triple_bit_info_eq)
  then have step: "triple_bit_info distances = Inr (Some bit_info) \<or>
      (\<exists>e. triple_bit_info distances = Inl e)"
    by (simp split: if_splits)
  have missing: "?r = Inl (KeyError bit_info)"
    if "BIT_INFO bit_info = None \<and> (\<forall>s\<in>set (steps_before bit_info ?t). key_ok BIT_INFO s)"
  proof -
    from that have none: "BIT_INFO bit_info = None"
      and before: "\<forall>s\<in>set (steps_before bit_info ?t). key_ok BIT_INFO s"
      by simp_all
    from assms(1-3) step [unfolded assms(4,5)] none before show ?thesis
      by (rule triple_base_missing)
  qed
  have found: "\<exists>v. BIT_INFO bit_info = Some v \<and> v \<in> fp" if "?r = Inr fp" for fp
  proof -
    from triple_base_found [OF that assms(1-3)]
    obtain k v where "triple_bit_info distances = Inr (Some k)" "BIT_INFO k = Some v" "v \<in> fp"
      unfolding assms(4,5) by blast
    with key show ?thesis
      by (auto split: if_splits)
  qed
  have returns: "\<exists>fp v. ?r = Inr fp \<and> BIT_INFO bit_info = Some v \<and> v \<in> fp"
    if "(\<forall>s\<in>set ?t. key_ok BIT_INFO s) \<and> (\<forall>key v. BIT_INFO key = Some v \<longrightarrow> v < 2 ^ 31)"
  proof -
    from that have "\<exists>fp. ?r = Inr fp"
      by (intro encoder_returns_some) simp_all
    with found show ?thesis by blast
  qed
  show ?thesis
    using obs srt key missing found returns by blast
qed

lemma example_distances:
  "triple_distances bin_distance_spec example_bins
     (sort_key (\<lambda>f. FEATURE2BIT (kind f)) [fP, fH, fA])
     (calculate_distance_matrix example_distance
        (sort_key (\<lambda>f. FEATURE2BIT (kind f)) [fP, fH, fA])) 0 1 2 =
   [\<lparr>id' = 80, bin = 1\<rparr>, \<lparr>id' = 65, bin = 2\<rparr>, \<lparr>id' = 72, bin = 3\<rparr>]"
  by code_simp

lemma example_steps_ok:
  "\<forall>s\<in>set (key_trace example_distance bin_distance_spec example_bins [fP, fH, fA] True 0).
     key_ok (example_bit_info 4) s"
  by code_simp

theorem triple_base_key_witness:
  "from_pharmacophore example_distance bin_distance_spec example_bins
     ((example_bit_info 4)([80, 65, 72, 98, 99, 100] := None)) [fP, fH, fA] True 0 =
   Inl (KeyError [80, 65, 72, 98, 99, 100]) \<and>
   (\<exists>fp v. from_pharmacophore example_distance bin_distance_spec example_bins
        (example_bit_info 4) [fP, fH, fA] True 0 = Inr fp \<and>
      example_bit_info 4 [80, 65, 72, 98, 99, 100] = Some v \<and> v \<in> fp)"
proof -
  have idx: "(0::nat) < 1" "(1::nat) < 2" "2 < length [fP, fH, fA]"
    by simp_all
  have key: "[80, 65, 72, 98, 99, 100] =
      [id' ([\<lparr>id' = 80, bin = 1\<rparr>, \<lparr>id' = 65, bin = 2\<rparr>, \<lparr>id' = 72, bin = 3\<rparr>] ! 0),
       id' ([\<lparr>id' = 80, bin = 1\<rparr>, \<lparr>id' = 65, bin = 2\<rparr>, \<lparr>id' = 72, bin = 3\<rparr>] ! 1),
       id' ([\<lparr>id' = 80, bin = 1\<rparr>, \<lparr>id' = 65, bin = 2\<rparr>, \<lparr>id' = 72, bin = 3\<rparr>] ! 2),
       nat (bin ([\<lparr>id' = 80, bin = 1\<rparr>, \<lparr>id' = 65, bin = 2\<rparr>, \<lparr>id' = 72, bin = 3\<rparr>] ! 0) + 97),
       nat (bin ([\<lparr>id' = 80, bin = 1\<rparr>, \<lparr>id' = 65, bin = 2\<rparr>, \<lparr>id' = 72, bin = 3\<rparr>] ! 1) + 97),
       nat (bin ([\<lparr>id' = 80, bin = 1\<rparr>, \<lparr>id' = 65, bin = 2\<rparr>, \<lparr>id' = 72, bin = 3\<rparr>] ! 2) + 97)]"
    by simp
  note inst = triple_base_key [OF idx refl example_distances [symmetric] key,
      where subs = True and ff = 0]
  have before: "\<forall>s\<in>set (steps_before [80, 65, 72, 98, 99, 100]
        (key_trace example_distance bin_distance_spec example_bins [fP, fH, fA] True 0)).
      key_ok ((example_bit_info 4)([80, 65, 72, 98, 99, 100] := None)) s"
    by code_simp
  have "from_pharmacophore example_distance bin_distance_spec example_bins
     ((example_bit_info 4)([80, 65, 72, 98, 99, 100] := None)) [fP, fH, fA] True 0 =
   Inl (KeyError [80, 65, 72, 98, 99, 100])"
    using inst [where BIT_INFO = "(example_bit_info 4)([80, 65, 72, 98, 99, 100] := None)"] before
    by simp
  moreover have "\<exists>fp v. from_pharmacophore example_distance bin_distance_spec example_bins
        (example_bit_info 4) [fP, fH, fA] True 0 = Inr fp \<and>
      example_bit_info 4 [80, 65, 72, 98, 99, 100] = Some v \<and> v \<in> fp"
    using inst [where BIT_INFO = "example_bit_info 4"] example_steps_ok example_bit_info_fits [of 4]
    by blast
  ultimately show ?thesis by blast
qed

text \<open>
  C3: for an offset \<open>(i, j, k)\<close> the encoder adds \<open>i\<close>, \<open>j\<close>, \<open>k\<close> to the first, second and
  third bin of the sorted list \<open>distances\<close>. The step is skipped exactly when one of the
  three sums is below 0 or not below \<open>nr_bins\<close>. Otherwise the three perturbed observations
  are sorted again by (bin, tag) and the key is rebuilt from them. The encoder looks this
  key up, for every triple and every offset of \<open>fuzzy_offsets\<close>: when the key is absent
  from the dictionary and every step before the first one that builds it succeeds, the
  call raises KeyError with this key. Every call that returns a fingerprint found the key
  and put its bit into the fingerprint, and the call does return one when every key it
  builds is in the dictionary and the positions of the dictionary fit \<open>intbitset\<close>.
\<close>

theorem fuzzy_triple_key:
  assumes "in_range \<longleftrightarrow>
             0 \<le> bin (ds ! 0) + i \<and> bin (ds ! 0) + i < nr_bins \<and>
             0 \<le> bin (ds ! 1) + j \<and> bin (ds ! 1) + j < nr_bins \<and>
             0 \<le> bin (ds ! 2) + k \<and> bin (ds ! 2) + k < nr_bins"
  shows "(fuzzy_triple_bit_info nr_bins ds (i, j, k) = Inr None \<longleftrightarrow> \<not> in_range) \<and>
         (in_range \<longrightarrow>
            (\<exists>fdistances.
               mset fdistances =
                 {#\<lparr>id' = id' (ds ! 0), bin = bin (ds ! 0) + i\<rparr>,
                   \<lparr>id' = id' (ds ! 1), bin = bin (ds ! 1) + j\<rparr>,
                   \<lparr>id' = id' (ds ! 2), bin = bin (ds ! 2) + k\<rparr>#} \<and>
               sorted (map (\<lambda>d. (bin d, id' d)) fdistances) \<and>
               fuzzy_triple_bit_info nr_bins ds (i, j, k) =
                 (if \<forall>n<3. bin (fdistances ! n) + 97 < 1114112
                  then Inr (Some [id' (fdistances ! 0), id' (fdistances ! 1), id' (fdistances ! 2),
                                  nat (bin (fdistances ! 0) + 97), nat (bin (fdistances ! 1) + 97),
                                  nat (bin (fdistances ! 2) + 97)])
                  else Inl ValueError))) \<and>
         (\<forall>offsets a b c.
            a < b \<and> b < c \<and> c < length P \<and>
            fuzzy_offsets ff = Inr offsets \<and> (i, j, k) \<in> set offsets \<and>
            ds = triple_distances bin_distance BINS (sort_key (\<lambda>f. FEATURE2BIT (kind f)) P)
                   (calculate_distance_matrix distance (sort_key (\<lambda>f. FEATURE2BIT (kind f)) P))
                   a b c \<and>
            nr_bins = int (length BINS) \<and> in_range \<longrightarrow>
            (\<forall>bit_info.
               fuzzy_triple_bit_info nr_bins ds (i, j, k) = Inr (Some bit_info) \<and>
               BIT_INFO bit_info = None \<and>
               (\<forall>s\<in>set (steps_before bit_info (key_trace distance bin_distance BINS P subs ff)).
                  key_ok BIT_INFO s) \<longrightarrow>
               from_pharmacophore distance bin_distance BINS BIT_INFO P subs ff =
                 Inl (KeyError bit_info)) \<and>
            (\<forall>fp. from_pharmacophore distance bin_distance BINS BIT_INFO P subs ff = Inr fp \<longrightarrow>
               (\<exists>bit_info v. fuzzy_triple_bit_info nr_bins ds (i, j, k) = Inr (Some bit_info) \<and>
                  BIT_INFO bit_info = Some v \<and> v \<in> fp)) \<and>
            ((\<forall>s\<in>set (key_trace distance bin_distance BINS P subs ff). key_ok BIT_INFO s) \<and>
             (\<forall>key v. BIT_INFO key = Some v \<longrightarrow> v < 2 ^ 31) \<longrightarrow>
             (\<exists>fp bit_info v.
                from_pharmacophore distance bin_distance BINS BIT_INFO P subs ff = Inr fp \<and>
                fuzzy_triple_bit_info nr_bins ds (i, j, k) = Inr (Some bit_info) \<and>
                BIT_INFO bit_info = Some v \<and> v \<in> fp)))"
proof -
  let ?r = "from_pharmacophore distance bin_distance BINS BIT_INFO P subs ff"
  let ?t = "key_trace distance bin_distance BINS P subs ff"
  let ?fds = "sort_distances
             [\<lparr>id' = id' (ds ! 0), bin = bin (ds ! 0) + i\<rparr>,
              \<lparr>id' = id' (ds ! 1), bin = bin (ds ! 1) + j\<rparr>,
              \<lparr>id' = id' (ds ! 2), bin = bin (ds ! 2) + k\<rparr>]"
  have skip: "fuzzy_triple_bit_info nr_bins ds (i, j, k) = Inr None \<longleftrightarrow> \<not> in_range"
    unfolding assms fuzzy_triple_bit_info_eq
    using triple_bit_info_not_skipped [of ?fds] by auto
  have rebuilt: "\<exists>fdistances.
               mset fdistances =
                 {#\<lparr>id' = id' (ds ! 0), bin = bin (ds ! 0) + i\<rparr>,
                   \<lparr>id' = id' (ds ! 1), bin = bin (ds ! 1) + j\<rparr>,
                   \<lparr>id' = id' (ds ! 2), bin = bin (ds ! 2) + k\<rparr>#} \<and>
               sorted (map (\<lambda>d. (bin d, id' d)) fdistances) \<and>
               fuzzy_triple_bit_info nr_bins ds (i, j, k) =
                 (if \<forall>n<3. bin (fdistances ! n) + 97 < 1114112
                  then Inr (Some [id' (fdistances ! 0), id' (fdistances ! 1), id' (fdistances ! 2),
                                  nat (bin (fdistances ! 0) + 97), nat (bin (fdistances ! 1) + 97),
                                  nat (bin (fdistances ! 2) + 97)])
                  else Inl ValueError)" if in_range
  proof -
    have m: "mset ?fds =
                 {#\<lparr>id' = id' (ds ! 0), bin = bin (ds ! 0) + i\<rparr>,
                   \<lparr>id' = id' (ds ! 1), bin = bin (ds ! 1) + j\<rparr>,
                   \<lparr>id' = id' (ds ! 2), bin = bin (ds ! 2) + k\<rparr>#}"
      by (simp add: mset_sort_distances)
    have "0 \<le> bin e" if "e \<in> set ?fds" for e
    proof -
      from that have "e \<in># mset ?fds" by simp
      then show ?thesis
        unfolding m using \<open>in_range\<close> assms by auto
    qed
    moreover have "?fds ! n \<in> set ?fds" if "n < 3" for n
      using that by (intro nth_mem) (simp add: length_sort_distances)
    ultimately have nonneg: "0 \<le> bin (?fds ! n) + 97" if "n < 3" for n
      using that by fastforce
    have "fuzzy_triple_bit_info nr_bins ds (i, j, k) = triple_bit_info ?fds"
      using \<open>in_range\<close> unfolding assms fuzzy_triple_bit_info_eq by auto
    also have "\<dots> = (if \<forall>n<3. bin (?fds ! n) + 97 < 1114112
                  then Inr (Some [id' (?fds ! 0), id' (?fds ! 1), id' (?fds ! 2),
                                  nat (bin (?fds ! 0) + 97), nat (bin (?fds ! 1) + 97),
                                  nat (bin (?fds ! 2) + 97)])
                  else Inl ValueError)"
      unfolding triple_bit_info_eq using nonneg by auto
    finally show ?thesis
      using m sorted_sort_distances by blast
  qed
  have looked_up:
    "(\<forall>bit_info.
        fuzzy_triple_bit_info nr_bins ds (i, j, k) = Inr (Some bit_info) \<and>
        BIT_INFO bit_info = None \<and>
        (\<forall>s\<in>set (steps_before bit_info ?t). key_ok BIT_INFO s) \<longrightarrow>
        ?r = Inl (KeyError bit_info)) \<and>
     (\<forall>fp. ?r = Inr fp \<longrightarrow>
        (\<exists>bit_info v. fuzzy_triple_bit_info nr_bins ds (i, j, k) = Inr (Some bit_info) \<and>
           BIT_INFO bit_info = Some v \<and> v \<in> fp)) \<and>
     ((\<forall>s\<in>set ?t. key_ok BIT_INFO s) \<and> (\<forall>key v. BIT_INFO key = Some v \<longrightarrow> v < 2 ^ 31) \<longrightarrow>
      (\<exists>fp bit_info v. ?r = Inr fp \<and>
         fuzzy_triple_bit_info nr_bins ds (i, j, k) = Inr (Some bit_info) \<and>
         BIT_INFO bit_info = Some v \<and> v \<in> fp))"
    if hyp: "a < b \<and> b < c \<and> c < length P \<and>
            fuzzy_offsets ff = Inr offsets \<and> (i, j, k) \<in> set offsets \<and>
            ds = triple_distances bin_distance BINS (sort_key (\<lambda>f. FEATURE2BIT (kind f)) P)
                   (calculate_distance_matrix distance (sort_key (\<lambda>f. FEATURE2BIT (kind f)) P))
                   a b c \<and>
            nr_bins = int (length BINS) \<and> in_range" for offsets a b c
  proof -
    from hyp have *: "a < b" "b < c" "c < length P" "fuzzy_offsets ff = Inr offsets"
      "(i, j, k) \<in> set offsets"
      by simp_all
    from hyp have ds: "ds = triple_distances bin_distance BINS
        (sort_key (\<lambda>f. FEATURE2BIT (kind f)) P)
        (calculate_distance_matrix distance (sort_key (\<lambda>f. FEATURE2BIT (kind f)) P)) a b c"
      and nr: "nr_bins = int (length BINS)" and rng: in_range
      by simp_all
    have mem: "fuzzy_triple_bit_info nr_bins ds (i, j, k) \<in> set ?t"
      unfolding ds nr by (rule fuzzy_triple_in_trace [OF *])
    have missing: "?r = Inl (KeyError bit_info)"
      if "fuzzy_triple_bit_info nr_bins ds (i, j, k) = Inr (Some bit_info) \<and>
          BIT_INFO bit_info = None \<and>
          (\<forall>s\<in>set (steps_before bit_info ?t). key_ok BIT_INFO s)" for bit_info
    proof -
      from that have none: "BIT_INFO bit_info = None"
        and before: "\<forall>s\<in>set (steps_before bit_info ?t). key_ok BIT_INFO s"
        and step: "fuzzy_triple_bit_info nr_bins ds (i, j, k) = Inr (Some bit_info) \<or>
          (\<exists>e. fuzzy_triple_bit_info nr_bins ds (i, j, k) = Inl e)"
        by simp_all
      from mem have "fuzzy_triple_bit_info nr_bins ds (i, j, k) \<in> set ?t \<or>
          (\<exists>e. Inl e \<in> set ?t)"
        by simp
      with none before show ?thesis
        using step by (rule encoder_missing_step)
    qed
    have found: "\<exists>bit_info v. fuzzy_triple_bit_info nr_bins ds (i, j, k) = Inr (Some bit_info) \<and>
               BIT_INFO bit_info = Some v \<and> v \<in> fp" if "?r = Inr fp" for fp
    proof -
      from success_key [OF that mem]
      obtain ko where ko: "fuzzy_triple_bit_info nr_bins ds (i, j, k) = Inr ko"
        "\<forall>bit_info. ko = Some bit_info \<longrightarrow> (\<exists>v. BIT_INFO bit_info = Some v \<and> v \<in> fp)"
        by blast
      from rng skip ko(1) obtain bit_info where "ko = Some bit_info"
        by (cases ko) auto
      with ko show ?thesis by auto
    qed
    have returns: "\<exists>fp bit_info v. ?r = Inr fp \<and>
         fuzzy_triple_bit_info nr_bins ds (i, j, k) = Inr (Some bit_info) \<and>
         BIT_INFO bit_info = Some v \<and> v \<in> fp"
      if "(\<forall>s\<in>set ?t. key_ok BIT_INFO s) \<and> (\<forall>key v. BIT_INFO key = Some v \<longrightarrow> v < 2 ^ 31)"
    proof -
      from that have "\<exists>fp. ?r = Inr fp"
        by (intro encoder_returns_some) simp_all
      with found show ?thesis by blast
    qed
    show ?thesis
      using missing found returns by blast
  qed
  show ?thesis
    using skip rebuilt looked_up by blast
qed

lemma example_steps_ok_legacy:
  "\<forall>s\<in>set (key_trace example_distance bin_distance_spec example_bins [fP, fH, fA] False (- 1)).
     key_ok (example_bit_info 4) s"
  by code_simp

theorem fuzzy_triple_key_witness:
  "from_pharmacophore example_distance bin_distance_spec example_bins
     ((example_bit_info 4)([72, 80, 65, 99, 99, 100] := None)) [fP, fH, fA] False (- 1) =
   Inl (KeyError [72, 80, 65, 99, 99, 100]) \<and>
   fuzzy_triple_bit_info 4 [\<lparr>id' = 80, bin = 1\<rparr>, \<lparr>id' = 65, bin = 2\<rparr>, \<lparr>id' = 72, bin = 3\<rparr>]
     (1, 2, 1) = Inr None \<and>
   (\<exists>fp v. from_pharmacophore example_distance bin_distance_spec example_bins
        (example_bit_info 4) [fP, fH, fA] False (- 1) = Inr fp \<and>
      example_bit_info 4 [72, 80, 65, 99, 99, 100] = Some v \<and> v \<in> fp)"
proof -
  let ?ds = "[\<lparr>id' = 80, bin = 1\<rparr>, \<lparr>id' = 65, bin = 2\<rparr>, \<lparr>id' = 72, bin = 3\<rparr>]"
  let ?key = "[72, 80, 65, 99, 99, 100]"
  have skipped: "fuzzy_triple_bit_info 4 ?ds (1, 2, 1) = Inr None"
    using fuzzy_triple_key [where in_range = False and ds = ?ds and i = 1 and nr_bins = 4 and
        j = 2 and k = 1]
    by simp
  have rng: "True \<longleftrightarrow>
             0 \<le> bin (?ds ! 0) + 1 \<and> bin (?ds ! 0) + 1 < 4 \<and>
             0 \<le> bin (?ds ! 1) + 1 \<and> bin (?ds ! 1) + 1 < 4 \<and>
             0 \<le> bin (?ds ! 2) + (- 1) \<and> bin (?ds ! 2) + (- 1) < 4"
    by simp
  have offs: "fuzzy_offsets (- 1) =
     Inr [(1, 2, 1), (1, 1, - 1), (1, - 1, - 1), (1, 0, - 1), (0, - 1, - 1),
          (- 1, - 1, - 1), (1, 2, 0)]"
    by (simp add: fuzzy_offsets_def)
  have prems: "(0::nat) < 1 \<and> (1::nat) < 2 \<and> 2 < length [fP, fH, fA] \<and>
    fuzzy_offsets (- 1) = Inr [(1, 2, 1), (1, 1, - 1), (1, - 1, - 1), (1, 0, - 1), (0, - 1, - 1),
          (- 1, - 1, - 1), (1, 2, 0)] \<and>
    (1, 1, - 1) \<in> set [(1, 2, 1), (1, 1, - 1), (1, - 1, - 1), (1, 0, - 1), (0, - 1, - 1),
          (- 1, - 1, - 1), (1, 2, 0::int)] \<and>
    ?ds = triple_distances bin_distance_spec example_bins
            (sort_key (\<lambda>f. FEATURE2BIT (kind f)) [fP, fH, fA])
            (calculate_distance_matrix example_distance
              (sort_key (\<lambda>f. FEATURE2BIT (kind f)) [fP, fH, fA])) 0 1 2 \<and>
    (4::int) = int (length example_bins) \<and> True"
    using offs example_distances by (simp add: example_bins_def)
  have step: "fuzzy_triple_bit_info 4 ?ds (1, 1, - 1) = Inr (Some ?key)"
    by code_simp
  note inst = fuzzy_triple_key [OF rng, where distance = example_distance and
      bin_distance = bin_distance_spec and BINS = example_bins and P = "[fP, fH, fA]" and
      subs = False and ff = "- 1"]
  have before: "\<forall>s\<in>set (steps_before ?key
        (key_trace example_distance bin_distance_spec example_bins [fP, fH, fA] False (- 1))).
      key_ok ((example_bit_info 4)(?key := None)) s"
    by code_simp
  have none: "((example_bit_info 4)(?key := None)) ?key = None"
    by simp
  have "from_pharmacophore example_distance bin_distance_spec example_bins
     ((example_bit_info 4)(?key := None)) [fP, fH, fA] False (- 1) = Inl (KeyError ?key)"
    using inst [where BIT_INFO = "(example_bit_info 4)(?key := None)"] prems step before none
    by blast
  moreover have "\<exists>fp bit_info v. from_pharmacophore example_distance bin_distance_spec example_bins
        (example_bit_info 4) [fP, fH, fA] False (- 1) = Inr fp \<and>
      fuzzy_triple_bit_info 4 ?ds (1, 1, - 1) = Inr (Some bit_info) \<and>
      example_bit_info 4 bit_info = Some v \<and> v \<in> fp"
    using inst [where BIT_INFO = "example_bit_info 4"] prems example_steps_ok_legacy
      example_bit_info_fits [of 4]
    by blast
  then have "\<exists>fp v. from_pharmacophore example_distance bin_distance_spec example_bins
        (example_bit_info 4) [fP, fH, fA] False (- 1) = Inr fp \<and>
      example_bit_info 4 ?key = Some v \<and> v \<in> fp"
    unfolding step by simp
  ultimately show ?thesis
    using skipped by blast
qed

subsection \<open>Pair keys\<close>

lemma pair_bit_info_eq:
  "pair_bit_info ids n =
     (if 0 \<le> n \<and> n < 1114112 then Inr (Some [ids ! 0, nat n, ids ! 1]) else Inl ValueError)"
  by (simp add: pair_bit_info_def chr_def)



lemma pair_trace_at_keys:
  assumes "Inr (Some k) \<in> set (pair_trace_at bin_distance BINS fs
             (calculate_distance_matrix distance fs) r a b)"
    and "a < length fs" and "b < length fs"
  shows "\<exists>i. (i = 0 \<or> (- r \<le> i \<and> i \<le> r \<and>
                0 \<le> int (bin_distance (distance (fs ! a) (fs ! b)) BINS) + i \<and>
                int (bin_distance (distance (fs ! a) (fs ! b)) BINS) + i \<le> int (length BINS))) \<and>
             k = [FEATURE2BIT (kind (fs ! a)),
                  nat (int (bin_distance (distance (fs ! a) (fs ! b)) BINS) + 97 + i),
                  FEATURE2BIT (kind (fs ! b))]"
proof -
  let ?ids = "[FEATURE2BIT (kind (fs ! a)), FEATURE2BIT (kind (fs ! b))]"
  let ?B = "int (bin_distance (distance (fs ! a) (fs ! b)) BINS)"
  from assms consider "Inr (Some k) = pair_bit_info ?ids (?B + 97)"
    | i where "- r \<le> i" "i \<le> r" "Inr (Some k) = pair_fuzzy_bit_info (int (length BINS)) ?ids ?B i"
    by (auto simp: pair_trace_at_matrix Let_def)
  then show ?thesis
  proof cases
    case 1
    then have "k = [?ids ! 0, nat (?B + 97 + 0), ?ids ! 1]"
      by (simp add: pair_bit_info_eq split: if_splits)
    then show ?thesis by auto
  next
    case 2
    then have "0 \<le> ?B + i \<and> ?B + i \<le> int (length BINS) \<and>
        k = [?ids ! 0, nat (?B + 97 + i), ?ids ! 1]"
      by (auto simp: pair_fuzzy_bit_info_def pair_bit_info_eq split: if_splits)
    with 2(1,2) show ?thesis by auto
  qed
qed

lemma trace_three_character_keys:
  assumes "Inr (Some k) \<in> set (key_trace distance bin_distance BINS P subs ff)"
  shows "length k = 1 \<or> length k = 6 \<or>
         (\<exists>a b i. a < b \<and> b < length P \<and>
            (i = 0 \<or> (- (if ff < 0 then 1 else ff) \<le> i \<and> i \<le> (if ff < 0 then 1 else ff) \<and>
               0 \<le> int (bin_distance (distance (sort_key (\<lambda>f. FEATURE2BIT (kind f)) P ! a)
                              (sort_key (\<lambda>f. FEATURE2BIT (kind f)) P ! b)) BINS) + i \<and>
               int (bin_distance (distance (sort_key (\<lambda>f. FEATURE2BIT (kind f)) P ! a)
                              (sort_key (\<lambda>f. FEATURE2BIT (kind f)) P ! b)) BINS) + i
                 \<le> int (length BINS))) \<and>
            k = [FEATURE2BIT (kind (sort_key (\<lambda>f. FEATURE2BIT (kind f)) P ! a)),
                 nat (int (bin_distance (distance (sort_key (\<lambda>f. FEATURE2BIT (kind f)) P ! a)
                              (sort_key (\<lambda>f. FEATURE2BIT (kind f)) P ! b)) BINS) + 97 + i),
                 FEATURE2BIT (kind (sort_key (\<lambda>f. FEATURE2BIT (kind f)) P ! b))])"
proof -
  let ?o = "sort_key (\<lambda>f. FEATURE2BIT (kind f)) P"
  from assms [unfolded in_key_trace]
  consider "length k = 1"
    | a b where "a < b" "b < length P"
        "Inr (Some k) \<in> set (pair_trace_at bin_distance BINS ?o
           (calculate_distance_matrix distance ?o) (if ff < 0 then 1 else ff) a b)"
    | offsets a b c where "Inr (Some k) \<in> set (triple_trace_at bin_distance BINS ?o
           (calculate_distance_matrix distance ?o) offsets a b c)"
    by auto
  then show ?thesis
  proof cases
    case 1
    then show ?thesis by simp
  next
    case 2
    from pair_trace_at_keys [OF 2(3)] 2(1,2) show ?thesis
      by (intro disjI2 exI [of _ a] exI [of _ b]) simp
  next
    case 3
    then show ?thesis by (simp add: triple_trace_at_length)
  qed
qed

lemma pair_base_in_trace:
  assumes "a < b" and "b < length P"
  shows "pair_bit_info
           [FEATURE2BIT (kind (sort_key (\<lambda>f. FEATURE2BIT (kind f)) P ! a)),
            FEATURE2BIT (kind (sort_key (\<lambda>f. FEATURE2BIT (kind f)) P ! b))]
           (int (bin_distance (distance (sort_key (\<lambda>f. FEATURE2BIT (kind f)) P ! a)
                                 (sort_key (\<lambda>f. FEATURE2BIT (kind f)) P ! b)) BINS) + 97)
         \<in> set (key_trace distance bin_distance BINS P True ff)"
proof -
  let ?o = "sort_key (\<lambda>f. FEATURE2BIT (kind f)) P"
  let ?ids = "[FEATURE2BIT (kind (?o ! a)), FEATURE2BIT (kind (?o ! b))]"
  let ?n = "int (bin_distance (distance (?o ! a) (?o ! b)) BINS) + 97"
  have "pair_bit_info ?ids ?n \<in> set (pair_trace_at bin_distance BINS ?o
          (calculate_distance_matrix distance ?o) (if ff < 0 then 1 else ff) a b)"
    using assms by (simp add: pair_trace_at_matrix Let_def)
  then show ?thesis
    by (rule pair_in_trace [OF assms])
qed


lemma pair_base_missing:
  assumes "a < b" and "b < length P"
    and "BIT_INFO [FEATURE2BIT (kind (sort_key (\<lambda>f. FEATURE2BIT (kind f)) P ! a)),
                   nat (int (bin_distance (distance (sort_key (\<lambda>f. FEATURE2BIT (kind f)) P ! a)
                                 (sort_key (\<lambda>f. FEATURE2BIT (kind f)) P ! b)) BINS) + 97),
                   FEATURE2BIT (kind (sort_key (\<lambda>f. FEATURE2BIT (kind f)) P ! b))] = None"
    and "\<forall>s\<in>set (steps_before
                    [FEATURE2BIT (kind (sort_key (\<lambda>f. FEATURE2BIT (kind f)) P ! a)),
                     nat (int (bin_distance (distance (sort_key (\<lambda>f. FEATURE2BIT (kind f)) P ! a)
                                 (sort_key (\<lambda>f. FEATURE2BIT (kind f)) P ! b)) BINS) + 97),
                     FEATURE2BIT (kind (sort_key (\<lambda>f. FEATURE2BIT (kind f)) P ! b))]
                    (key_trace distance bin_distance BINS P True ff)). key_ok BIT_INFO s"
  shows "from_pharmacophore distance bin_distance BINS BIT_INFO P True ff =
           Inl (KeyError
             [FEATURE2BIT (kind (sort_key (\<lambda>f. FEATURE2BIT (kind f)) P ! a)),
              nat (int (bin_distance (distance (sort_key (\<lambda>f. FEATURE2BIT (kind f)) P ! a)
                                 (sort_key (\<lambda>f. FEATURE2BIT (kind f)) P ! b)) BINS) + 97),
              FEATURE2BIT (kind (sort_key (\<lambda>f. FEATURE2BIT (kind f)) P ! b))])"
  using assms(3,4)
proof (rule encoder_missing_step)
  let ?o = "sort_key (\<lambda>f. FEATURE2BIT (kind f)) P"
  let ?ids = "[FEATURE2BIT (kind (?o ! a)), FEATURE2BIT (kind (?o ! b))]"
  let ?n = "int (bin_distance (distance (?o ! a) (?o ! b)) BINS) + 97"
  show "pair_bit_info ?ids ?n \<in> set (key_trace distance bin_distance BINS P True ff) \<or>
      (\<exists>e. Inl e \<in> set (key_trace distance bin_distance BINS P True ff))"
    using pair_base_in_trace [OF assms(1,2)] by blast
  show "pair_bit_info ?ids ?n =
      Inr (Some [FEATURE2BIT (kind (?o ! a)), nat ?n, FEATURE2BIT (kind (?o ! b))]) \<or>
      (\<exists>e. pair_bit_info ?ids ?n = Inl e)"
    by (simp add: pair_bit_info_eq)
qed






subsection \<open>The switch \<open>subs\<close>\<close>




subsection \<open>Calls that cannot raise ValueError\<close>

lemma run_KeyError:
  assumes "\<not> (\<forall>k\<in>set ks. key_ok BIT_INFO k)" and "\<forall>k\<in>set ks. \<exists>ko. k = Inr ko"
  shows "\<exists>bit_info. for_each ks (emit BIT_INFO) s = Inl (KeyError bit_info) \<and>
           BIT_INFO bit_info = None"
proof -
  from run_not_ok [OF assms(1), of s] obtain k where k: "k \<in> set ks" "\<not> key_ok BIT_INFO k"
    "for_each ks (emit BIT_INFO) s = Inl (case k of Inl e \<Rightarrow> e | Inr ko \<Rightarrow> KeyError (the ko))"
    by blast
  from k(1) assms(2) obtain ko where ko: "k = Inr ko" by blast
  with k(2) obtain bit_info where "ko = Some bit_info" "BIT_INFO bit_info = None"
    by (auto simp: key_ok_def split: option.splits)
  with k(3) ko show ?thesis by simp
qed

lemma pair_trace_at_no_ValueError:
  assumes "\<forall>dist. bin_distance dist BINS \<le> length BINS" and "length BINS + 97 < 1114112"
    and "k \<in> set (pair_trace_at bin_distance BINS fs dm r a b)"
  shows "\<exists>ko. k = Inr ko"
proof -
  let ?B = "int (bin_distance (dm ! a ! b) BINS)"
  have B: "0 \<le> ?B" "?B \<le> int (length BINS)"
    using assms(1) by simp_all
  from assms(3) consider "k = pair_bit_info [FEATURE2BIT (kind (fs ! a)), FEATURE2BIT (kind (fs ! b))] (?B + 97)"
    | i where "k = pair_fuzzy_bit_info (int (length BINS))
                 [FEATURE2BIT (kind (fs ! a)), FEATURE2BIT (kind (fs ! b))] ?B i"
    by (auto simp: pair_trace_at_def Let_def)
  then show ?thesis
  proof cases
    case 1
    with B assms(2) show ?thesis by (simp add: pair_bit_info_eq)
  next
    case 2
    with assms(2) show ?thesis
      by (simp add: pair_fuzzy_bit_info_def pair_bit_info_eq)
  qed
qed

lemma triple_bit_info_sorted_ok:
  assumes "\<forall>e\<in>set es. 0 \<le> bin e \<and> bin e + 97 < 1114112" and "length es = 3"
  shows "\<exists>k. triple_bit_info (sort_distances es) = Inr (Some k)"
proof -
  have "sort_distances es ! n \<in> set es" if "n < 3" for n
  proof -
    have "sort_distances es ! n \<in> set (sort_distances es)"
      using that assms(2) by (intro nth_mem) (simp add: length_sort_distances)
    then show ?thesis by (simp add: sort_distances_def)
  qed
  with assms(1) have "\<forall>n<3. 0 \<le> bin (sort_distances es ! n) + 97 \<and>
      bin (sort_distances es ! n) + 97 < 1114112"
    by fastforce
  then show ?thesis
    by (simp add: triple_bit_info_eq)
qed

lemma triple_trace_at_no_ValueError:
  assumes "\<forall>dist. bin_distance dist BINS \<le> length BINS" and "length BINS + 97 < 1114112"
    and "k \<in> set (triple_trace_at bin_distance BINS fs dm offsets a b c)"
  shows "\<exists>ko. k = Inr ko"
proof -
  let ?ds = "triple_distances bin_distance BINS fs dm a b c"
  have B: "bin_distance dist BINS < 1114015" for dist
  proof -
    have "bin_distance dist BINS \<le> length BINS" using assms(1) by simp
    with assms(2) show ?thesis by linarith
  qed
  from assms(3) consider "k = triple_bit_info ?ds"
    | ijk where "k = fuzzy_triple_bit_info (int (length BINS)) ?ds ijk"
    by (auto simp: triple_trace_at_def Let_def)
  then show ?thesis
  proof cases
    case 1
    have "\<exists>key. triple_bit_info ?ds = Inr (Some key)"
      unfolding triple_distances_def
      by (rule triple_bit_info_sorted_ok) (simp_all add: B)
    with 1 show ?thesis by auto
  next
    case 2
    obtain i j l where ijk: "ijk = (i, j, l)" by (cases ijk)
    show ?thesis
    proof (cases "fuzzy_triple_bit_info (int (length BINS)) ?ds ijk = Inr None")
      case True
      with 2 show ?thesis by simp
    next
      case False
      then have rng: "0 \<le> bin (?ds ! 0) + i" "bin (?ds ! 0) + i < int (length BINS)"
        "0 \<le> bin (?ds ! 1) + j" "bin (?ds ! 1) + j < int (length BINS)"
        "0 \<le> bin (?ds ! 2) + l" "bin (?ds ! 2) + l < int (length BINS)"
        unfolding ijk fuzzy_triple_bit_info_eq by (auto split: if_splits)
      have "\<exists>key. triple_bit_info (sort_distances
             [\<lparr>id' = id' (?ds ! 0), bin = bin (?ds ! 0) + i\<rparr>,
              \<lparr>id' = id' (?ds ! 1), bin = bin (?ds ! 1) + j\<rparr>,
              \<lparr>id' = id' (?ds ! 2), bin = bin (?ds ! 2) + l\<rparr>]) = Inr (Some key)"
        using rng assms(2) by (intro triple_bit_info_sorted_ok) auto
      with 2 rng show ?thesis
        unfolding ijk fuzzy_triple_bit_info_eq by auto
    qed
  qed
qed

lemma subs_trace_no_ValueError:
  assumes "\<forall>dist. bin_distance dist BINS \<le> length BINS" and "length BINS + 97 < 1114112"
    and "k \<in> set (singleton_trace fs @ pair_trace bin_distance BINS fs dm ff)"
  shows "\<exists>ko. k = Inr ko"
  using assms(3) pair_trace_at_no_ValueError [where bin_distance = bin_distance and BINS = BINS, OF assms(1,2)]
  by (auto simp: singleton_trace_def in_pair_trace)

lemma triple_trace_no_ValueError:
  assumes "\<forall>dist. bin_distance dist BINS \<le> length BINS" and "length BINS + 97 < 1114112"
    and "k \<in> set (triple_trace bin_distance BINS fs dm offsets)"
  shows "\<exists>ko. k = Inr ko"
  using assms(3) triple_trace_at_no_ValueError [where bin_distance = bin_distance and BINS = BINS, OF assms(1,2)]
  by (auto simp: in_triple_trace)

lemma key_trace_no_ValueError:
  assumes "\<forall>dist. bin_distance dist BINS \<le> length BINS" and "length BINS + 97 < 1114112"
    and "- 2 \<le> ff"
    and "k \<in> set (key_trace distance bin_distance BINS P subs ff)"
  shows "\<exists>ko. k = Inr ko"
proof -
  from assms(3) fuzzy_offsets_cases [of ff] obtain offsets where "fuzzy_offsets ff = Inr offsets"
    by auto
  with assms(4) consider
    (subs) "k \<in> set (singleton_trace (sort_key (\<lambda>f. FEATURE2BIT (kind f)) P) @
              pair_trace bin_distance BINS (sort_key (\<lambda>f. FEATURE2BIT (kind f)) P)
                (calculate_distance_matrix distance (sort_key (\<lambda>f. FEATURE2BIT (kind f)) P)) ff)"
    | (triples) "k \<in> set (triple_trace bin_distance BINS (sort_key (\<lambda>f. FEATURE2BIT (kind f)) P)
                (calculate_distance_matrix distance (sort_key (\<lambda>f. FEATURE2BIT (kind f)) P))
                offsets)"
    by (auto simp: key_trace_def Let_def split: if_splits)
  then show ?thesis
  proof cases
    case subs
    with assms(1,2) show ?thesis by (rule subs_trace_no_ValueError)
  next
    case triples
    with assms(1,2) show ?thesis by (rule triple_trace_no_ValueError)
  qed
qed

subsection \<open>Distances beyond the last threshold\<close>

lemma triple_bit_info_has_bin:
  assumes "e \<in> set ds" and "length ds = 3" and "triple_bit_info ds = Inr (Some key)"
  shows "nat (bin e + 97) \<in> set key"
proof -
  from assms(1,2) obtain n where n: "n < 3" "e = ds ! n"
    by (metis in_set_conv_nth)
  then consider "n = 0" | "n = 1" | "n = 2" by linarith
  then show ?thesis
    using n(2) assms(3) by cases (auto simp: triple_bit_info_eq split: if_splits)
qed

lemma set_sort_distances: "set (sort_distances ds) = set ds"
  by (simp add: sort_distances_def)

lemma length_triple_distances: "length (triple_distances bin_distance BINS fs dm a b c) = 3"
  by (simp add: triple_distances_def length_sort_distances)

lemma triple_with_pair:
  assumes "a < b" and "b < length fs" and "c < length fs" and "c \<noteq> a" and "c \<noteq> b"
  shows "\<exists>a' b' c'. a' < b' \<and> b' < c' \<and> c' < length fs \<and>
           (\<exists>e\<in>set (triple_distances bin_distance BINS fs
                       (calculate_distance_matrix distance fs) a' b' c').
              bin e = int (bin_distance (distance (fs ! a) (fs ! b)) BINS))"
proof -
  from assms consider "c < a" | "a < c" "c < b" | "b < c" by linarith
  then show ?thesis
  proof cases
    case 1
    with assms have "c < a \<and> a < b \<and> b < length fs \<and>
        (\<exists>e\<in>set (triple_distances bin_distance BINS fs
                       (calculate_distance_matrix distance fs) c a b).
              bin e = int (bin_distance (distance (fs ! a) (fs ! b)) BINS))"
      by (simp add: triple_trace_at_matrix set_sort_distances)
    then show ?thesis by blast
  next
    case 2
    with assms have "a < c \<and> c < b \<and> b < length fs \<and>
        (\<exists>e\<in>set (triple_distances bin_distance BINS fs
                       (calculate_distance_matrix distance fs) a c b).
              bin e = int (bin_distance (distance (fs ! a) (fs ! b)) BINS))"
      by (simp add: triple_trace_at_matrix set_sort_distances)
    then show ?thesis by blast
  next
    case 3
    with assms have "a < b \<and> b < c \<and> c < length fs \<and>
        (\<exists>e\<in>set (triple_distances bin_distance BINS fs
                       (calculate_distance_matrix distance fs) a b c).
              bin e = int (bin_distance (distance (fs ! a) (fs ! b)) BINS))"
      by (simp add: triple_trace_at_matrix set_sort_distances)
    then show ?thesis by blast
  qed
qed

lemma third_index:
  assumes "a < b" and "3 \<le> (n::nat)"
  shows "\<exists>c. c < n \<and> c \<noteq> a \<and> c \<noteq> b"
  using assms by presburger

lemma out_of_range_triple:
  assumes "a < b" and "b < length P" and "3 \<le> length P"
    and "bin_distance (distance (sort_key (\<lambda>f. FEATURE2BIT (kind f)) P ! a)
           (sort_key (\<lambda>f. FEATURE2BIT (kind f)) P ! b)) BINS = length BINS"
  shows "\<exists>a' b' c'. a' < b' \<and> b' < c' \<and> c' < length P \<and>
           (\<forall>key. triple_bit_info (triple_distances bin_distance BINS
                      (sort_key (\<lambda>f. FEATURE2BIT (kind f)) P)
                      (calculate_distance_matrix distance (sort_key (\<lambda>f. FEATURE2BIT (kind f)) P))
                      a' b' c') = Inr (Some key) \<longrightarrow>
              nat (int (length BINS) + 97) \<in> set key)"
proof -
  let ?o = "sort_key (\<lambda>f. FEATURE2BIT (kind f)) P"
  from third_index [OF assms(1,3)] obtain c where c: "c < length P" "c \<noteq> a" "c \<noteq> b"
    by blast
  have "\<exists>a' b' c'. a' < b' \<and> b' < c' \<and> c' < length ?o \<and>
           (\<exists>e\<in>set (triple_distances bin_distance BINS ?o
                       (calculate_distance_matrix distance ?o) a' b' c').
              bin e = int (bin_distance (distance (?o ! a) (?o ! b)) BINS))"
    using assms(1,2) c by (intro triple_with_pair) simp_all
  then obtain a' b' c' e where *: "a' < b'" "b' < c'" "c' < length P"
    "e \<in> set (triple_distances bin_distance BINS ?o (calculate_distance_matrix distance ?o) a' b' c')"
    "bin e = int (length BINS)"
    using assms(4) by auto
  have "nat (int (length BINS) + 97) \<in> set key"
    if "triple_bit_info (triple_distances bin_distance BINS ?o
          (calculate_distance_matrix distance ?o) a' b' c') = Inr (Some key)" for key
    using triple_bit_info_has_bin [OF *(4) length_triple_distances that] *(5) by simp
  with *(1-3) show ?thesis by blast
qed

text \<open>
  C10: the base key of a pair or of a triple is built and looked up with no bound check on
  its bins. Let the distance of the pair \<open>a < b\<close> lie beyond the last threshold, so that
  \<open>bin_distance\<close> returns \<open>length BINS\<close>, a bin the triple fuzz bound rejects (last part).
  A call with \<open>subs\<close> that returns a fingerprint found the pair key with this bin
  character, and a call on three or more features that returns a fingerprint found a
  triple key with it. When the dictionary has no key with this character (and \<open>chr\<close> and
  \<open>fuzzy_offsets\<close> cannot raise), the call is not skipped over but ends in KeyError.
\<close>

theorem base_key_unconditional:
  assumes "ordered_features = sort_key (\<lambda>f. FEATURE2BIT (kind f)) P"
    and "a < b" and "b < length P"
    and "bin_distance (distance (ordered_features ! a) (ordered_features ! b)) BINS = length BINS"
  shows "(\<forall>fp. from_pharmacophore distance bin_distance BINS BIT_INFO P True ff = Inr fp \<longrightarrow>
            (\<exists>v. BIT_INFO [FEATURE2BIT (kind (ordered_features ! a)),
                            nat (int (length BINS) + 97),
                            FEATURE2BIT (kind (ordered_features ! b))] = Some v \<and> v \<in> fp)) \<and>
         (\<forall>fp. 3 \<le> length P \<and>
            from_pharmacophore distance bin_distance BINS BIT_INFO P subs ff = Inr fp \<longrightarrow>
            (\<exists>key v. length key = 6 \<and> nat (int (length BINS) + 97) \<in> set key \<and>
               BIT_INFO key = Some v \<and> v \<in> fp)) \<and>
         ((\<forall>dist. bin_distance dist BINS \<le> length BINS) \<and> length BINS + 97 < 1114112 \<and>
          (\<forall>key. nat (int (length BINS) + 97) \<in> set key \<longrightarrow> BIT_INFO key = None) \<and>
          (subs \<or> 3 \<le> length P \<and> - 2 \<le> ff) \<longrightarrow>
          (\<exists>key. from_pharmacophore distance bin_distance BINS BIT_INFO P subs ff =
                    Inl (KeyError key) \<and> BIT_INFO key = None)) \<and>
         (\<forall>ds n. n < 3 \<and> bin (ds ! n) = int (length BINS) \<longrightarrow>
            fuzzy_triple_bit_info (int (length BINS)) ds (0, 0, 0) = Inr None)"
proof -
  let ?o = "sort_key (\<lambda>f. FEATURE2BIT (kind f)) P"
  let ?dm = "calculate_distance_matrix distance ?o"
  let ?ids = "[FEATURE2BIT (kind (?o ! a)), FEATURE2BIT (kind (?o ! b))]"
  let ?c = "nat (int (length BINS) + 97)"
  let ?r = "from_pharmacophore distance bin_distance BINS BIT_INFO P subs ff"
  note out = assms(4) [unfolded assms(1)]
  have pair: "\<exists>v. BIT_INFO [FEATURE2BIT (kind (?o ! a)), ?c, FEATURE2BIT (kind (?o ! b))] = Some v \<and>
      v \<in> fp"
    if "from_pharmacophore distance bin_distance BINS BIT_INFO P True ff = Inr fp" for fp
    using pair_base_found [OF that assms(2,3)] unfolding out
    by (auto simp: chr_def split: if_splits)
  have triple: "\<exists>key v. length key = 6 \<and> ?c \<in> set key \<and> BIT_INFO key = Some v \<and> v \<in> fp"
    if "3 \<le> length P \<and> ?r = Inr fp" for fp
  proof -
    from that have n: "3 \<le> length P" by simp
    have "\<exists>a' b' c'. a' < b' \<and> b' < c' \<and> c' < length P \<and>
        (\<forall>key. triple_bit_info (triple_distances bin_distance BINS ?o ?dm a' b' c') =
           Inr (Some key) \<longrightarrow> ?c \<in> set key)"
      using assms(2,3) n out by (rule out_of_range_triple)
    then obtain a' b' c' where *: "a' < b'" "b' < c'" "c' < length P"
      "\<forall>key. triple_bit_info (triple_distances bin_distance BINS ?o ?dm a' b' c') = Inr (Some key) \<longrightarrow>
          ?c \<in> set key"
      by blast
    from that have "?r = Inr fp" by simp
    from triple_base_found [OF this *(1-3)] obtain key v where
      "triple_bit_info (triple_distances bin_distance BINS ?o ?dm a' b' c') = Inr (Some key)"
      "BIT_INFO key = Some v" "v \<in> fp"
      by blast
    with *(4) triple_bit_info_length show ?thesis by blast
  qed
  have key_error: "\<exists>key. ?r = Inl (KeyError key) \<and> BIT_INFO key = None"
    if hyp: "(\<forall>dist. bin_distance dist BINS \<le> length BINS) \<and> length BINS + 97 < 1114112 \<and>
          (\<forall>key. ?c \<in> set key \<longrightarrow> BIT_INFO key = None) \<and>
          (subs \<or> 3 \<le> length P \<and> - 2 \<le> ff)"
  proof -
    from hyp have clamp: "\<forall>dist. bin_distance dist BINS \<le> length BINS"
      and small: "length BINS + 97 < 1114112"
      and dict: "\<And>key. ?c \<in> set key \<Longrightarrow> BIT_INFO key = None"
      by simp_all
    show ?thesis
    proof (cases subs)
      case True
      let ?T1 = "singleton_trace ?o @ pair_trace bin_distance BINS ?o ?dm ff"
      obtain T2 where T: "key_trace distance bin_distance BINS P subs ff = ?T1 @ T2"
        using True by (simp add: key_trace_def Let_def)
      let ?k = "pair_bit_info ?ids (int (length BINS) + 97)"
      have "?k \<in> set (pair_trace_at bin_distance BINS ?o ?dm (if ff < 0 then 1 else ff) a b)"
        using assms(2,3) out by (simp add: pair_trace_at_matrix Let_def)
      then have "?k \<in> set (pair_trace bin_distance BINS ?o ?dm ff)"
        unfolding in_pair_trace using assms(2,3)
        by (intro exI [of _ a] exI [of _ b]) simp
      then have mem: "?k \<in> set ?T1" by simp
      have "?k = Inr (Some [?ids ! 0, ?c, ?ids ! 1])"
        using small by (simp add: pair_bit_info_eq)
      moreover have "BIT_INFO [?ids ! 0, ?c, ?ids ! 1] = None"
        by (rule dict) simp
      ultimately have "\<not> key_ok BIT_INFO ?k"
        by (simp add: key_ok_def)
      with mem have "\<not> (\<forall>k\<in>set ?T1. key_ok BIT_INFO k)" by blast
      moreover have "\<forall>k\<in>set ?T1. \<exists>ko. k = Inr ko"
        using clamp small by (intro ballI) (rule subs_trace_no_ValueError)
      ultimately obtain key where "for_each ?T1 (emit BIT_INFO) {} = Inl (KeyError key)"
        "BIT_INFO key = None"
        using run_KeyError [of ?T1 BIT_INFO "{}"] by blast
      moreover have "for_each (?T1 @ T2) (emit BIT_INFO) {} =
          bind (for_each ?T1 (emit BIT_INFO) {}) (for_each T2 (emit BIT_INFO))"
        by (rule for_each_append)
      ultimately show ?thesis
        unfolding from_pharmacophore_trace T by simp
    next
      case False
      with hyp have n: "3 \<le> length P" and ff: "- 2 \<le> ff" by simp_all
      let ?T = "key_trace distance bin_distance BINS P subs ff"
      from ff fuzzy_offsets_cases [of ff] obtain offsets where offs: "fuzzy_offsets ff = Inr offsets"
        by auto
      have "\<exists>a' b' c'. a' < b' \<and> b' < c' \<and> c' < length P \<and>
          (\<forall>key. triple_bit_info (triple_distances bin_distance BINS ?o ?dm a' b' c') =
             Inr (Some key) \<longrightarrow> ?c \<in> set key)"
        using assms(2,3) n out by (rule out_of_range_triple)
      then obtain a' b' c' where *: "a' < b'" "b' < c'" "c' < length P"
        "\<forall>key. triple_bit_info (triple_distances bin_distance BINS ?o ?dm a' b' c') = Inr (Some key) \<longrightarrow>
            ?c \<in> set key"
        by blast
      let ?k = "triple_bit_info (triple_distances bin_distance BINS ?o ?dm a' b' c')"
      have "?k \<in> set (triple_trace_at bin_distance BINS ?o ?dm offsets a' b' c')"
        by (simp add: triple_trace_at_def Let_def)
      then have mem: "?k \<in> set ?T"
        by (rule triple_in_trace [OF *(1-3) offs])
      have no_error: "\<forall>k\<in>set ?T. \<exists>ko. k = Inr ko"
        using clamp small ff by (intro ballI) (rule key_trace_no_ValueError)
      with mem obtain ko where "?k = Inr ko" by blast
      with triple_bit_info_not_skipped [of "triple_distances bin_distance BINS ?o ?dm a' b' c'"]
      obtain key where key: "?k = Inr (Some key)" by (cases ko) auto
      with *(4) have "BIT_INFO key = None" by (intro dict) simp
      with key have "\<not> key_ok BIT_INFO ?k" by (simp add: key_ok_def)
      with mem have "\<not> (\<forall>k\<in>set ?T. key_ok BIT_INFO k)" by blast
      from run_KeyError [OF this no_error, of "{}"] show ?thesis
        by (auto simp: from_pharmacophore_trace)
    qed
  qed
  have rejected: "fuzzy_triple_bit_info (int (length BINS)) ds (0, 0, 0) = Inr None"
    if "n < 3 \<and> bin (ds ! n) = int (length BINS)" for ds and n :: nat
  proof -
    from that consider "n = 0" | "n = 1" | "n = 2" by linarith
    then show ?thesis
      using that by cases (simp_all add: fuzzy_triple_bit_info_eq)
  qed
  show ?thesis
    unfolding assms(1) using pair triple key_error rejected by blast
qed

lemma example_bit_info_chars:
  assumes "example_bit_info m key = Some v" and "c \<in> set key"
  shows "is_tag c \<or> is_bin_char m c"
proof -
  from assms(2) obtain i where i: "i < length key" "key ! i = c"
    by (metis in_set_conv_nth)
  from assms(1) consider
    "length key = 1" "is_tag (key ! 0)"
    | "length key = 3" "is_tag (key ! 0)" "is_bin_char m (key ! 1)" "is_tag (key ! 2)"
    | "length key = 6" "is_tag (key ! 0)" "is_tag (key ! 1)" "is_tag (key ! 2)"
      "is_bin_char m (key ! 3)" "is_bin_char m (key ! 4)" "is_bin_char m (key ! 5)"
    unfolding example_bit_info_def by (auto split: if_splits)
  then show ?thesis
  proof cases
    case 1
    with i show ?thesis by auto
  next
    case 2
    from i(1) 2(1) consider "i = 0" | "i = 1" | "i = 2" by linarith
    then show ?thesis using i(2) 2 by cases auto
  next
    case 3
    from i(1) 3(1) consider "i = 0" | "i = 1" | "i = 2" | "i = 3" | "i = 4" | "i = 5"
      by linarith
    then show ?thesis using i(2) 3 by cases auto
  qed
qed

lemma example_bit_info_out_of_range:
  "\<forall>key. nat (int (length example_bins) + 97) \<in> set key \<longrightarrow> example_bit_info 4 key = None"
proof (intro allI impI)
  fix key
  assume "nat (int (length example_bins) + 97) \<in> set key"
  then have mem: "101 \<in> set key" by (simp add: example_bins_def)
  have "\<not> (is_tag 101 \<or> is_bin_char 4 101)"
    by (simp add: is_tag_def is_bin_char_def FEATURE2BIT_def)
  with example_bit_info_chars [OF _ mem, of 4] show "example_bit_info 4 key = None"
    by (cases "example_bit_info 4 key") auto
qed

lemma bin_distance_spec_le: "\<forall>dist. bin_distance_spec dist bins \<le> length bins"
  by (simp add: bin_distance_spec_def)

lemma example_sorted_far:
  "sort_key (\<lambda>f. FEATURE2BIT (kind f)) [fP, fH, fR] = [fH, fP, fR]"
  by code_simp

theorem base_key_unconditional_witness:
  "\<exists>key. from_pharmacophore example_distance bin_distance_spec example_bins (example_bit_info 4)
            [fP, fH, fR] False 0 = Inl (KeyError key) \<and>
          example_bit_info 4 key = None"
proof -
  have out: "bin_distance_spec (example_distance ([fH, fP, fR] ! 0) ([fH, fP, fR] ! 2)) example_bins =
      length example_bins"
    by code_simp
  have "(0::nat) < 2" "2 < length [fP, fH, fR]" by simp_all
  from base_key_unconditional [where bin_distance = bin_distance_spec and
      distance = example_distance and BINS = example_bins and
      BIT_INFO = "example_bit_info 4" and subs = False and ff = 0 and P = "[fP, fH, fR]" and
      ordered_features = "[fH, fP, fR]" and a = 0 and b = 2,
      OF example_sorted_far [symmetric] this out]
    bin_distance_spec_le [of example_bins] example_bit_info_out_of_range
  show ?thesis
    by (simp add: example_bins_def)
qed

subsection \<open>Index pairs and triples of a list, and its subsequences\<close>

lemma pair_index_Cons:
  "(\<exists>a b. a < b \<and> b < length (z # zs) \<and> (z # zs) ! a = x \<and> (z # zs) ! b = y) \<longleftrightarrow>
     (x = z \<and> y \<in> set zs) \<or> (\<exists>a b. a < b \<and> b < length zs \<and> zs ! a = x \<and> zs ! b = y)"
  (is "?L \<longleftrightarrow> ?R")
proof
  assume ?L
  then obtain a b where ab: "a < b" "b < length (z # zs)" "(z # zs) ! a = x" "(z # zs) ! b = y"
    by blast
  from ab(1) obtain b' where b': "b = Suc b'" by (cases b) auto
  show ?R
  proof (cases a)
    case 0
    with ab b' have "x = z" "y \<in> set zs" by auto
    then show ?thesis by blast
  next
    case (Suc a')
    with ab b' have "a' < b' \<and> b' < length zs \<and> zs ! a' = x \<and> zs ! b' = y" by auto
    then show ?thesis by blast
  qed
next
  assume ?R
  then show ?L
  proof
    assume "x = z \<and> y \<in> set zs"
    then obtain b where "b < length zs" "zs ! b = y" "x = z"
      by (auto simp: in_set_conv_nth)
    then have "0 < Suc b \<and> Suc b < length (z # zs) \<and> (z # zs) ! 0 = x \<and> (z # zs) ! Suc b = y"
      by simp
    then show ?L by blast
  next
    assume "\<exists>a b. a < b \<and> b < length zs \<and> zs ! a = x \<and> zs ! b = y"
    then obtain a b where "a < b" "b < length zs" "zs ! a = x" "zs ! b = y" by blast
    then have "Suc a < Suc b \<and> Suc b < length (z # zs) \<and> (z # zs) ! Suc a = x \<and>
        (z # zs) ! Suc b = y"
      by simp
    then show ?L by blast
  qed
qed

lemma subseq_pair_iff:
  "subseq [x, y] xs \<longleftrightarrow> (\<exists>a b. a < b \<and> b < length xs \<and> xs ! a = x \<and> xs ! b = y)"
proof (induction xs)
  case Nil
  then show ?case by simp
next
  case (Cons z zs)
  have "y \<in> set zs" if "subseq [u, y] zs" for u
    using subseq_Cons' [OF that] by (simp add: subseq_singleton_left)
  then show ?case
    unfolding pair_index_Cons Cons.IH [symmetric]
    by (auto simp: subseq_singleton_left)
qed

lemma triple_index_Cons:
  "(\<exists>a b c. a < b \<and> b < c \<and> c < length (w # ws) \<and>
      (w # ws) ! a = x \<and> (w # ws) ! b = y \<and> (w # ws) ! c = z) \<longleftrightarrow>
     (x = w \<and> (\<exists>b c. b < c \<and> c < length ws \<and> ws ! b = y \<and> ws ! c = z)) \<or>
     (\<exists>a b c. a < b \<and> b < c \<and> c < length ws \<and> ws ! a = x \<and> ws ! b = y \<and> ws ! c = z)"
  (is "?L \<longleftrightarrow> ?R")
proof
  assume ?L
  then obtain a b c where abc: "a < b" "b < c" "c < length (w # ws)"
    "(w # ws) ! a = x" "(w # ws) ! b = y" "(w # ws) ! c = z"
    by blast
  from abc(1) obtain b' where b': "b = Suc b'" by (cases b) auto
  from abc(2) obtain c' where c': "c = Suc c'" by (cases c) auto
  show ?R
  proof (cases a)
    case 0
    with abc b' c' have "x = w \<and> b' < c' \<and> c' < length ws \<and> ws ! b' = y \<and> ws ! c' = z"
      by auto
    then show ?thesis by blast
  next
    case (Suc a')
    with abc b' c' have "a' < b' \<and> b' < c' \<and> c' < length ws \<and>
        ws ! a' = x \<and> ws ! b' = y \<and> ws ! c' = z"
      by auto
    then show ?thesis by blast
  qed
next
  assume ?R
  then show ?L
  proof
    assume "x = w \<and> (\<exists>b c. b < c \<and> c < length ws \<and> ws ! b = y \<and> ws ! c = z)"
    then obtain b c where "x = w" "b < c" "c < length ws" "ws ! b = y" "ws ! c = z" by blast
    then have "0 < Suc b \<and> Suc b < Suc c \<and> Suc c < length (w # ws) \<and>
        (w # ws) ! 0 = x \<and> (w # ws) ! Suc b = y \<and> (w # ws) ! Suc c = z"
      by simp
    then show ?L by blast
  next
    assume "\<exists>a b c. a < b \<and> b < c \<and> c < length ws \<and> ws ! a = x \<and> ws ! b = y \<and> ws ! c = z"
    then obtain a b c where "a < b" "b < c" "c < length ws" "ws ! a = x" "ws ! b = y" "ws ! c = z"
      by blast
    then have "Suc a < Suc b \<and> Suc b < Suc c \<and> Suc c < length (w # ws) \<and>
        (w # ws) ! Suc a = x \<and> (w # ws) ! Suc b = y \<and> (w # ws) ! Suc c = z"
      by simp
    then show ?L by blast
  qed
qed

lemma subseq_triple_iff:
  "subseq [x, y, z] xs \<longleftrightarrow>
     (\<exists>a b c. a < b \<and> b < c \<and> c < length xs \<and> xs ! a = x \<and> xs ! b = y \<and> xs ! c = z)"
proof (induction xs)
  case Nil
  then show ?case by simp
next
  case (Cons w ws)
  have "subseq [y, z] ws" if "subseq [u, y, z] ws" for u
    using that by (rule subseq_Cons')
  then show ?case
    unfolding triple_index_Cons Cons.IH [symmetric] subseq_pair_iff [symmetric]
    by auto
qed

lemma subseq_mset: "subseq ys xs \<Longrightarrow> mset ys \<subseteq># mset xs"
  by (induction rule: list_emb.induct) (auto intro: subset_mset.order_trans)

lemma mset_subseq:
  "M \<subseteq># mset xs \<Longrightarrow> \<exists>ys. subseq ys xs \<and> mset ys = M"
proof (induction xs arbitrary: M)
  case Nil
  then show ?case by simp
next
  case (Cons x xs)
  show ?case
  proof (cases "x \<in># M")
    case True
    with Cons.prems have "M - {#x#} \<subseteq># mset xs"
      by (simp add: insert_subset_eq_iff subset_eq_diff_conv)
    from Cons.IH [OF this] obtain ys where "subseq ys xs" "mset ys = M - {#x#}" by blast
    with True have "subseq (x # ys) (x # xs) \<and> mset (x # ys) = M" by simp
    then show ?thesis by blast
  next
    case False
    with Cons.prems have "M \<subseteq># mset xs"
      by (metis diff_single_trivial mset.simps(2) subset_eq_diff_conv add_mset_add_single)
    from Cons.IH [OF this] obtain ys where "subseq ys xs" "mset ys = M" by blast
    then have "subseq ys (x # xs) \<and> mset ys = M" by auto
    then show ?thesis by blast
  qed
qed

lemma subseq_permuted:
  assumes "mset xs' = mset xs" and "subseq ys xs"
  shows "\<exists>ys'. subseq ys' xs' \<and> mset ys' = mset ys"
  using mset_subseq [of "mset ys" xs'] subseq_mset [OF assms(2)] assms(1) by simp


subsection \<open>The keys of a pair and of a triple do not depend on the order of the features\<close>

lemma pair_trace_at_elements:
  assumes "a < length fs" and "b < length fs"
  shows "pair_trace_at bin_distance BINS fs (calculate_distance_matrix distance fs) r a b =
         pair_keys_of distance bin_distance BINS r (fs ! a) (fs ! b)"
  using assms
  by (simp add: pair_trace_at_def pair_keys_of_def Let_def calculate_distance_matrix_nth)

lemma triple_trace_at_elements:
  assumes "a < length fs" and "b < length fs" and "c < length fs"
  shows "triple_trace_at bin_distance BINS fs (calculate_distance_matrix distance fs) offsets a b c =
         triple_keys_of distance bin_distance BINS offsets (fs ! a) (fs ! b) (fs ! c)"
  using assms
  by (simp add: triple_trace_at_def triple_keys_of_def Let_def triple_trace_at_matrix)

lemma pair_keys_of_sym:
  assumes "distance x y = distance y x" and "FEATURE2BIT (kind x) = FEATURE2BIT (kind y)"
  shows "pair_keys_of distance bin_distance BINS r x y =
         pair_keys_of distance bin_distance BINS r y x"
  using assms by (simp add: pair_keys_of_def)

lemma sort_distances_mset:
  assumes "mset es = mset es'"
  shows "sort_distances es = sort_distances es'"
  unfolding sort_distances_def using assms
proof (rule sort_key_eq_sort_key)
  show "inj_on (\<lambda>d. (bin d, id' d)) (set es)"
    by (rule inj_onI) simp
qed

lemma mset_three:
  assumes "mset [x', y', z'] = mset [x, y, z]"
  shows "(x' = x \<and> y' = y \<and> z' = z) \<or> (x' = x \<and> y' = z \<and> z' = y) \<or>
         (x' = y \<and> y' = x \<and> z' = z) \<or> (x' = y \<and> y' = z \<and> z' = x) \<or>
         (x' = z \<and> y' = x \<and> z' = y) \<or> (x' = z \<and> y' = y \<and> z' = x)"
  using assms by (auto simp: add_eq_conv_ex)

lemma triple_keys_of_perm:
  assumes "mset [x', y', z'] = mset [x, y, z]"
    and "\<forall>u\<in>{x, y, z}. \<forall>v\<in>{x, y, z}. distance u v = distance v u"
  shows "triple_keys_of distance bin_distance BINS offsets x' y' z' =
         triple_keys_of distance bin_distance BINS offsets x y z"
proof -
  let ?obs = "\<lambda>x y z.
            [\<lparr>id' = FEATURE2BIT (kind z), bin = int (bin_distance (distance x y) BINS)\<rparr>,
             \<lparr>id' = FEATURE2BIT (kind y), bin = int (bin_distance (distance x z) BINS)\<rparr>,
             \<lparr>id' = FEATURE2BIT (kind x), bin = int (bin_distance (distance y z) BINS)\<rparr>]"
  have sym: "distance x y = distance y x" "distance x z = distance z x"
    "distance y z = distance z y"
    using assms(2) by blast+
  from mset_three [OF assms(1)] consider
    "x' = x" "y' = y" "z' = z" | "x' = x" "y' = z" "z' = y" | "x' = y" "y' = x" "z' = z"
    | "x' = y" "y' = z" "z' = x" | "x' = z" "y' = x" "z' = y" | "x' = z" "y' = y" "z' = x"
    by blast
  then have "mset (?obs x' y' z') = mset (?obs x y z)"
  proof cases
    case 1
    then show ?thesis by simp
  next
    case 2
    have "mset (?obs x z y) = mset (?obs x y z)"
      unfolding sym(3) [symmetric] by simp
    with 2 show ?thesis by simp
  next
    case 3
    have "mset (?obs y x z) = mset (?obs x y z)"
      unfolding sym(1) [symmetric] by simp
    with 3 show ?thesis by simp
  next
    case 4
    have "mset (?obs y z x) = mset (?obs x y z)"
      unfolding sym(1,2) [symmetric] by simp
    with 4 show ?thesis by simp
  next
    case 5
    have "mset (?obs z x y) = mset (?obs x y z)"
      unfolding sym(2,3) [symmetric] by simp
    with 5 show ?thesis by simp
  next
    case 6
    have "mset (?obs z y x) = mset (?obs x y z)"
      unfolding sym(1,2,3) [symmetric] by simp
    with 6 show ?thesis by simp
  qed
  then have "sort_distances (?obs x' y' z') = sort_distances (?obs x y z)"
    by (rule sort_distances_mset)
  then show ?thesis
    by (simp add: triple_keys_of_def)
qed

lemma in_pair_trace_elements:
  "k \<in> set (pair_trace bin_distance BINS fs (calculate_distance_matrix distance fs) ff) \<longleftrightarrow>
     (\<exists>x y. subseq [x, y] fs \<and>
        k \<in> set (pair_keys_of distance bin_distance BINS (if ff < 0 then 1 else ff) x y))"
  (is "?L \<longleftrightarrow> ?R")
proof
  assume ?L
  then obtain a b where ab: "a < b" "b < length fs"
    "k \<in> set (pair_trace_at bin_distance BINS fs (calculate_distance_matrix distance fs)
            (if ff < 0 then 1 else ff) a b)"
    unfolding in_pair_trace by blast
  then have "k \<in> set (pair_keys_of distance bin_distance BINS (if ff < 0 then 1 else ff)
      (fs ! a) (fs ! b))"
    by (simp add: pair_trace_at_elements)
  moreover have "subseq [fs ! a, fs ! b] fs"
    unfolding subseq_pair_iff using ab(1,2) by blast
  ultimately show ?R by blast
next
  assume ?R
  then obtain x y where xy: "subseq [x, y] fs"
    "k \<in> set (pair_keys_of distance bin_distance BINS (if ff < 0 then 1 else ff) x y)"
    by blast
  from xy(1) obtain a b where ab: "a < b" "b < length fs" "fs ! a = x" "fs ! b = y"
    unfolding subseq_pair_iff by blast
  with xy(2) have "k \<in> set (pair_trace_at bin_distance BINS fs
      (calculate_distance_matrix distance fs) (if ff < 0 then 1 else ff) a b)"
    by (simp add: pair_trace_at_elements)
  with ab(1,2) show ?L
    unfolding in_pair_trace by blast
qed

lemma in_triple_trace_elements:
  "k \<in> set (triple_trace bin_distance BINS fs (calculate_distance_matrix distance fs) offsets) \<longleftrightarrow>
     (\<exists>x y z. subseq [x, y, z] fs \<and>
        k \<in> set (triple_keys_of distance bin_distance BINS offsets x y z))"
  (is "?L \<longleftrightarrow> ?R")
proof
  assume ?L
  then obtain a b c where abc: "a < b" "b < c" "c < length fs"
    "k \<in> set (triple_trace_at bin_distance BINS fs (calculate_distance_matrix distance fs)
            offsets a b c)"
    unfolding in_triple_trace by blast
  then have "k \<in> set (triple_keys_of distance bin_distance BINS offsets (fs ! a) (fs ! b) (fs ! c))"
    by (simp add: triple_trace_at_elements)
  moreover have "subseq [fs ! a, fs ! b, fs ! c] fs"
    unfolding subseq_triple_iff using abc(1-3) by blast
  ultimately show ?R by blast
next
  assume ?R
  then obtain x y z where xyz: "subseq [x, y, z] fs"
    "k \<in> set (triple_keys_of distance bin_distance BINS offsets x y z)"
    by blast
  from xyz(1) obtain a b c where abc: "a < b" "b < c" "c < length fs"
    "fs ! a = x" "fs ! b = y" "fs ! c = z"
    unfolding subseq_triple_iff by blast
  with xyz(2) have "k \<in> set (triple_trace_at bin_distance BINS fs
      (calculate_distance_matrix distance fs) offsets a b c)"
    by (simp add: triple_trace_at_elements)
  with abc(1-3) show ?L
    unfolding in_triple_trace by blast
qed

lemma sorted_subseq_pair:
  assumes "sorted (map t fs)" and "subseq [x, y] fs"
  shows "t x \<le> t y"
proof -
  from assms(2) obtain a b where ab: "a < b" "b < length fs" "fs ! a = x" "fs ! b = y"
    unfolding subseq_pair_iff by blast
  from assms(1) have "map t fs ! a \<le> map t fs ! b"
    using ab(1,2) by (intro sorted_nth_mono) auto
  with ab show ?thesis by simp
qed

lemma mset_two:
  assumes "mset ys = mset [x, y]"
  shows "ys = [x, y] \<or> ys = [y, x]"
proof -
  from assms have "length ys = 2"
    using mset_eq_length [OF assms] by simp
  then obtain u v where ys: "ys = [u, v]"
    by (metis (no_types) length_0_conv length_Suc_conv numeral_2_eq_2)
  with assms show ?thesis
    by (auto simp: add_eq_conv_ex)
qed

lemma length_three:
  assumes "mset ys = mset [x, y, z]"
  shows "\<exists>u v w. ys = [u, v, w]"
proof -
  from mset_eq_length [OF assms] have "length ys = 3" by simp
  then show ?thesis
    by (metis (no_types) length_0_conv length_Suc_conv numeral_3_eq_3)
qed

lemma subseq_in_set: "subseq ys xs \<Longrightarrow> set ys \<subseteq> set xs"
  by (induction rule: list_emb.induct) auto

lemma pair_keys_permuted:
  assumes "mset fs' = mset fs"
    and "sorted (map (\<lambda>f. FEATURE2BIT (kind f)) fs)"
    and "sorted (map (\<lambda>f. FEATURE2BIT (kind f)) fs')"
    and "\<forall>u\<in>set fs. \<forall>v\<in>set fs. distance u v = distance v u"
    and "subseq [x, y] fs'"
    and "k \<in> set (pair_keys_of distance bin_distance BINS r x y)"
  shows "\<exists>x' y'. subseq [x', y'] fs \<and> k \<in> set (pair_keys_of distance bin_distance BINS r x' y')"
proof -
  from subseq_permuted [OF assms(1) [symmetric] assms(5)]
  obtain ys where ys: "subseq ys fs" "mset ys = mset [x, y]" by blast
  from mset_two [OF ys(2)] show ?thesis
  proof
    assume "ys = [x, y]"
    with ys(1) assms(6) show ?thesis by blast
  next
    assume rev: "ys = [y, x]"
    from sorted_subseq_pair [OF assms(3,5)]
    have "FEATURE2BIT (kind x) \<le> FEATURE2BIT (kind y)" .
    moreover from sorted_subseq_pair [OF assms(2) ys(1) [unfolded rev]]
    have "FEATURE2BIT (kind y) \<le> FEATURE2BIT (kind x)" .
    ultimately have tag: "FEATURE2BIT (kind x) = FEATURE2BIT (kind y)" by simp
    from subseq_in_set [OF ys(1)] rev have "x \<in> set fs" "y \<in> set fs" by simp_all
    with assms(4) have "distance x y = distance y x" by blast
    from pair_keys_of_sym [OF this tag] assms(6)
    have "k \<in> set (pair_keys_of distance bin_distance BINS r y x)" by simp
    with ys(1) rev show ?thesis by blast
  qed
qed

lemma triple_keys_permuted:
  assumes "mset fs' = mset fs"
    and "\<forall>u\<in>set fs. \<forall>v\<in>set fs. distance u v = distance v u"
    and "subseq [x, y, z] fs'"
    and "k \<in> set (triple_keys_of distance bin_distance BINS offsets x y z)"
  shows "\<exists>x' y' z'. subseq [x', y', z'] fs \<and>
           k \<in> set (triple_keys_of distance bin_distance BINS offsets x' y' z')"
proof -
  from subseq_permuted [OF assms(1) [symmetric] assms(3)]
  obtain ys where ys: "subseq ys fs" "mset ys = mset [x, y, z]" by blast
  from length_three [OF ys(2)] obtain x' y' z' where ys': "ys = [x', y', z']" by blast
  from subseq_in_set [OF ys(1)] have "set ys \<subseteq> set fs" .
  moreover from ys(2) have "set ys = {x, y, z}"
    by (metis list.simps(15) empty_set mset_eq_setD)
  ultimately have "\<forall>u\<in>{x, y, z}. \<forall>v\<in>{x, y, z}. distance u v = distance v u"
    using assms(2) by blast
  from triple_keys_of_perm [OF ys(2) [unfolded ys'] this] assms(4)
  have "k \<in> set (triple_keys_of distance bin_distance BINS offsets x' y' z')" by simp
  with ys(1) ys' show ?thesis by blast
qed

lemma key_trace_permuted_subset:
  assumes "mset P' = mset P"
    and "\<forall>u\<in>set P. \<forall>v\<in>set P. distance u v = distance v u"
  shows "set (key_trace distance bin_distance BINS P' subs ff) \<subseteq>
         set (key_trace distance bin_distance BINS P subs ff)"
proof
  fix k
  let ?o = "sort_key (\<lambda>f. FEATURE2BIT (kind f)) P"
  let ?o' = "sort_key (\<lambda>f. FEATURE2BIT (kind f)) P'"
  have m: "mset ?o' = mset ?o" using assms(1) by simp
  have s: "sorted (map (\<lambda>f. FEATURE2BIT (kind f)) ?o)" "sorted (map (\<lambda>f. FEATURE2BIT (kind f)) ?o')"
    by (rule sorted_sort_key)+
  have sym: "\<forall>u\<in>set ?o. \<forall>v\<in>set ?o. distance u v = distance v u"
    using assms(2) by simp
  have set_eq: "set P' = set P"
    using assms(1) by (rule mset_eq_setD)
  assume "k \<in> set (key_trace distance bin_distance BINS P' subs ff)"
  then consider
    (single) "subs" "k \<in> set (singleton_trace ?o')"
    | (pair) "subs" "k \<in> set (pair_trace bin_distance BINS ?o'
                 (calculate_distance_matrix distance ?o') ff)"
    | (error) e where "fuzzy_offsets ff = Inl e" "k = Inl e"
    | (triple) offsets where "fuzzy_offsets ff = Inr offsets"
        "k \<in> set (triple_trace bin_distance BINS ?o' (calculate_distance_matrix distance ?o') offsets)"
    by (cases "fuzzy_offsets ff") (auto simp: key_trace_def Let_def split: if_splits)
  then show "k \<in> set (key_trace distance bin_distance BINS P subs ff)"
  proof cases
    case single
    then have "k \<in> set (singleton_trace ?o)"
      using set_eq by (simp add: singleton_trace_def)
    with single(1) show ?thesis
      by (simp add: key_trace_def Let_def)
  next
    case pair
    from pair(2) obtain x y where "subseq [x, y] ?o'"
      "k \<in> set (pair_keys_of distance bin_distance BINS (if ff < 0 then 1 else ff) x y)"
      unfolding in_pair_trace_elements by blast
    from pair_keys_permuted [OF m s sym this]
    have "k \<in> set (pair_trace bin_distance BINS ?o (calculate_distance_matrix distance ?o) ff)"
      unfolding in_pair_trace_elements .
    with pair(1) show ?thesis
      by (simp add: key_trace_def Let_def)
  next
    case error
    then show ?thesis
      by (simp add: key_trace_def Let_def)
  next
    case triple
    from triple(2) obtain x y z where "subseq [x, y, z] ?o'"
      "k \<in> set (triple_keys_of distance bin_distance BINS offsets x y z)"
      unfolding in_triple_trace_elements by blast
    from triple_keys_permuted [OF m sym this]
    have "k \<in> set (triple_trace bin_distance BINS ?o (calculate_distance_matrix distance ?o)
        offsets)"
      unfolding in_triple_trace_elements .
    with triple(1) show ?thesis
      by (simp add: key_trace_def Let_def)
  qed
qed

lemma key_trace_permuted:
  assumes "mset P' = mset P"
    and "\<forall>u\<in>set P. \<forall>v\<in>set P. distance u v = distance v u"
  shows "set (key_trace distance bin_distance BINS P' subs ff) =
         set (key_trace distance bin_distance BINS P subs ff)"
proof
  show "set (key_trace distance bin_distance BINS P' subs ff) \<subseteq>
      set (key_trace distance bin_distance BINS P subs ff)"
    using assms by (rule key_trace_permuted_subset)
  have "set P' = set P" using assms(1) by (rule mset_eq_setD)
  with assms(2) have "\<forall>u\<in>set P'. \<forall>v\<in>set P'. distance u v = distance v u" by simp
  with assms(1) [symmetric]
  show "set (key_trace distance bin_distance BINS P subs ff) \<subseteq>
      set (key_trace distance bin_distance BINS P' subs ff)"
    by (rule key_trace_permuted_subset)
qed

text \<open>
  C1: encoding a pharmacophore and encoding any permutation of its features, with the same
  \<open>subs\<close> and \<open>fuzzy_factor\<close>, yield the same fingerprint: one call returns a fingerprint
  exactly when the other does, and it is the same one; one call raises exactly when the
  other does. The distance of the features is symmetric, as the Euclidean distance is. The
  features are sorted by tag with a stable sort, so features of one tag may change places
  under a permutation; the keys do not change, because the pair key of two features of one
  tag is symmetric and the three observations of a triple are sorted by (bin, tag). The
  statement holds for every number of features, three or more included.
\<close>

theorem permutation_invariant:
  assumes "mset P' = mset P"
    and "\<forall>u\<in>set P. \<forall>v\<in>set P. distance u v = distance v u"
  shows "(\<forall>fp. from_pharmacophore distance bin_distance BINS BIT_INFO P' subs ff = Inr fp \<longleftrightarrow>
            from_pharmacophore distance bin_distance BINS BIT_INFO P subs ff = Inr fp) \<and>
         ((\<exists>e. from_pharmacophore distance bin_distance BINS BIT_INFO P' subs ff = Inl e) \<longleftrightarrow>
          (\<exists>e. from_pharmacophore distance bin_distance BINS BIT_INFO P subs ff = Inl e))"
proof -
  let ?r = "from_pharmacophore distance bin_distance BINS BIT_INFO P subs ff"
  let ?r' = "from_pharmacophore distance bin_distance BINS BIT_INFO P' subs ff"
  have "?r' = Inr fp \<longleftrightarrow> ?r = Inr fp" for fp
    unfolding encoder_Inr_iff key_trace_permuted [OF assms] ..
  then have same: "\<forall>fp. ?r' = Inr fp \<longleftrightarrow> ?r = Inr fp" ..
  have "(\<exists>e. x = Inl e) \<longleftrightarrow> \<not> (\<exists>fp. x = Inr fp)" for x :: "error + nat set"
    by (cases x) auto
  with same show ?thesis by simp
qed

lemma example_distance_sym: "example_distance u v = example_distance v u"
  by (simp add: example_distance_def abs_minus_commute)

lemma example_encoding_same_tag:
  "from_pharmacophore example_distance bin_distance_spec example_bins (example_bit_info 4)
     [fH, fH2, fA] True 0 =
   Inr {1, 8, 1096, 1128, 8264, 42207299}"
  by code_simp

theorem permutation_invariant_witness:
  "from_pharmacophore example_distance bin_distance_spec example_bins (example_bit_info 4)
     [fH2, fA, fH] True 0 =
   Inr {1, 8, 1096, 1128, 8264, 42207299}"
proof -
  have "mset [fH2, fA, fH] = mset [fH, fH2, fA]"
    by simp
  moreover have "\<forall>u\<in>set [fH, fH2, fA]. \<forall>v\<in>set [fH, fH2, fA].
      example_distance u v = example_distance v u"
    using example_distance_sym by blast
  ultimately show ?thesis
    using permutation_invariant [of "[fH2, fA, fH]" "[fH, fH2, fA]" example_distance
        bin_distance_spec example_bins "example_bit_info 4" True 0] example_encoding_same_tag
    by blast
qed

text \<open>
  C9: for a pair \<open>a < b\<close> of \<open>ordered_features\<close>, the base pair key \<open>bit_info\<close> is the tag of
  \<open>a\<close>, the bin character, the tag of \<open>b\<close>, in this order. A call with \<open>subs\<close> looks this
  key up: when the key is absent from the dictionary and every step before the first one
  that builds it succeeds, the call raises KeyError with this key. Whenever an encoding
  with \<open>subs\<close> returns a fingerprint, the key is in the dictionary and its bit is in the
  fingerprint, and the call does return one when every key it builds is in the dictionary
  and the positions of the dictionary fit \<open>intbitset\<close>. The two tags are not sorted again:
  every bit of the fingerprint that comes from a three-character key comes from a key with
  the tag of \<open>a\<close> first and the tag of \<open>b\<close> last for some \<open>a < b\<close>, whatever the bin. The
  tags are in ascending order because \<open>ordered_features\<close> is.
\<close>

theorem pair_base_key_order:
  assumes "ordered_features = sort_key (\<lambda>f. FEATURE2BIT (kind f)) P"
    and "a < b" and "b < length P"
    and "bin_id = int (bin_distance
                    (distance (ordered_features ! a) (ordered_features ! b)) BINS)"
    and "bit_info = [FEATURE2BIT (kind (ordered_features ! a)), nat (bin_id + 97),
                     FEATURE2BIT (kind (ordered_features ! b))]"
  shows "FEATURE2BIT (kind (ordered_features ! a)) \<le> FEATURE2BIT (kind (ordered_features ! b)) \<and>
         pair_bit_info [FEATURE2BIT (kind (ordered_features ! a)),
                        FEATURE2BIT (kind (ordered_features ! b))] (bin_id + 97) =
           (if bin_id + 97 < 1114112 then Inr (Some bit_info) else Inl ValueError) \<and>
         (BIT_INFO bit_info = None \<and>
          (\<forall>s\<in>set (steps_before bit_info (key_trace distance bin_distance BINS P True ff)).
             key_ok BIT_INFO s) \<longrightarrow>
          from_pharmacophore distance bin_distance BINS BIT_INFO P True ff =
            Inl (KeyError bit_info)) \<and>
         (\<forall>fp. from_pharmacophore distance bin_distance BINS BIT_INFO P True ff = Inr fp \<longrightarrow>
            chr (bin_id + 97) = Inr (nat (bin_id + 97)) \<and>
            (\<exists>v. BIT_INFO bit_info = Some v \<and> v \<in> fp) \<and>
            (\<forall>v\<in>fp. \<exists>key. BIT_INFO key = Some v \<and>
               (length key = 3 \<longrightarrow>
                  (\<exists>a b c. a < b \<and> b < length P \<and>
                     key = [FEATURE2BIT (kind (ordered_features ! a)), c,
                            FEATURE2BIT (kind (ordered_features ! b))])))) \<and>
         ((\<forall>s\<in>set (key_trace distance bin_distance BINS P True ff). key_ok BIT_INFO s) \<and>
          (\<forall>key v. BIT_INFO key = Some v \<longrightarrow> v < 2 ^ 31) \<longrightarrow>
          (\<exists>fp v. from_pharmacophore distance bin_distance BINS BIT_INFO P True ff = Inr fp \<and>
             BIT_INFO bit_info = Some v \<and> v \<in> fp))"
proof -
  let ?r = "from_pharmacophore distance bin_distance BINS BIT_INFO P True ff"
  let ?t = "key_trace distance bin_distance BINS P True ff"
  have c1: "FEATURE2BIT (kind (ordered_features ! a)) \<le> FEATURE2BIT (kind (ordered_features ! b))"
    unfolding assms(1) using assms(2,3) by (rule sorted_tags)
  have c2: "pair_bit_info [FEATURE2BIT (kind (ordered_features ! a)),
                        FEATURE2BIT (kind (ordered_features ! b))] (bin_id + 97) =
           (if bin_id + 97 < 1114112 then Inr (Some bit_info) else Inl ValueError)"
    unfolding assms(5) by (simp add: pair_bit_info_eq assms(4))
  have missing: "?r = Inl (KeyError bit_info)"
    if "BIT_INFO bit_info = None \<and> (\<forall>s\<in>set (steps_before bit_info ?t). key_ok BIT_INFO s)"
  proof -
    from that have none: "BIT_INFO bit_info = None"
      and before: "\<forall>s\<in>set (steps_before bit_info ?t). key_ok BIT_INFO s"
      by simp_all
    from assms(2,3) none before show ?thesis
      unfolding assms(5,4,1) by (rule pair_base_missing)
  qed
  have found: "chr (bin_id + 97) = Inr (nat (bin_id + 97)) \<and>
      (\<exists>v. BIT_INFO bit_info = Some v \<and> v \<in> fp)" if "?r = Inr fp" for fp
  proof -
    from pair_base_found [OF that assms(2,3)]
    obtain c v where "chr (bin_id + 97) = Inr c"
      "BIT_INFO [FEATURE2BIT (kind (ordered_features ! a)), c,
                 FEATURE2BIT (kind (ordered_features ! b))] = Some v" "v \<in> fp"
      unfolding assms(4,1) by blast
    then show ?thesis
      unfolding assms(5) by (auto simp: chr_def split: if_splits)
  qed
  have only: "\<exists>key. BIT_INFO key = Some v \<and>
            (length key = 3 \<longrightarrow>
               (\<exists>a b c. a < b \<and> b < length P \<and>
                  key = [FEATURE2BIT (kind (ordered_features ! a)), c,
                         FEATURE2BIT (kind (ordered_features ! b))]))"
    if "?r = Inr fp" "v \<in> fp" for fp v
  proof -
    from success_trace [OF that(1)] that(2)
    obtain key where key: "Inr (Some key) \<in> set ?t" "BIT_INFO key = Some v"
      by (auto simp: bits_of_def)
    from trace_three_character_keys [OF key(1)]
    have "length key = 3 \<longrightarrow>
               (\<exists>a b c. a < b \<and> b < length P \<and>
                  key = [FEATURE2BIT (kind (ordered_features ! a)), c,
                         FEATURE2BIT (kind (ordered_features ! b))])"
      unfolding assms(1) by auto
    with key(2) show ?thesis by blast
  qed
  have c3: "BIT_INFO bit_info = None \<and>
      (\<forall>s\<in>set (steps_before bit_info ?t). key_ok BIT_INFO s) \<longrightarrow> ?r = Inl (KeyError bit_info)"
    using missing by blast
  have c4: "\<forall>fp. ?r = Inr fp \<longrightarrow>
            chr (bin_id + 97) = Inr (nat (bin_id + 97)) \<and>
            (\<exists>v. BIT_INFO bit_info = Some v \<and> v \<in> fp) \<and>
            (\<forall>v\<in>fp. \<exists>key. BIT_INFO key = Some v \<and>
               (length key = 3 \<longrightarrow>
                  (\<exists>a b c. a < b \<and> b < length P \<and>
                     key = [FEATURE2BIT (kind (ordered_features ! a)), c,
                            FEATURE2BIT (kind (ordered_features ! b))])))"
    using found only by blast
  have "\<exists>fp v. ?r = Inr fp \<and> BIT_INFO bit_info = Some v \<and> v \<in> fp"
    if "(\<forall>s\<in>set ?t. key_ok BIT_INFO s) \<and> (\<forall>key v. BIT_INFO key = Some v \<longrightarrow> v < 2 ^ 31)"
  proof -
    from that have "\<exists>fp. ?r = Inr fp"
      by (intro encoder_returns_some) simp_all
    with found show ?thesis by blast
  qed
  then have c5: "(\<forall>s\<in>set ?t. key_ok BIT_INFO s) \<and>
      (\<forall>key v. BIT_INFO key = Some v \<longrightarrow> v < 2 ^ 31) \<longrightarrow>
      (\<exists>fp v. ?r = Inr fp \<and> BIT_INFO bit_info = Some v \<and> v \<in> fp)"
    by blast
  show ?thesis
    by (intro conjI c1 c2 c3 c4 c5)
qed

lemma example_first_pair_bin:
  "int (bin_distance_spec (example_distance ([fA, fH, fP] ! 0) ([fA, fH, fP] ! 1))
     example_bins) = 1"
  by code_simp

theorem pair_base_key_order_witness:
  "from_pharmacophore example_distance bin_distance_spec example_bins
     ((example_bit_info 4)([65, 98, 72] := None)) [fP, fH, fA] True 0 =
   Inl (KeyError [65, 98, 72]) \<and>
   from_pharmacophore example_distance bin_distance_spec example_bins
     (example_bit_info 4) [fP, fH, fA] True 0 = Inr {1, 8, 16, 1096, 1168, 8304, 538183780} \<and>
   example_bit_info 4 [65, 98, 72] = Some 1096 \<and>
   FEATURE2BIT HACC \<le> FEATURE2BIT LIPO"
proof -
  have ab: "(0::nat) < 1" "1 < length [fP, fH, fA]"
    by simp_all
  have key: "[65, 98, 72] = [FEATURE2BIT (kind ([fA, fH, fP] ! 0)), nat (1 + 97),
                            FEATURE2BIT (kind ([fA, fH, fP] ! 1))]"
    by (simp add: fA_def fH_def FEATURE2BIT_def)
  note inst = pair_base_key_order [where distance = example_distance and
      bin_distance = bin_distance_spec and BINS = example_bins and P = "[fP, fH, fA]" and
      ordered_features = "[fA, fH, fP]" and a = 0 and b = 1 and bin_id = 1 and
      bit_info = "[65, 98, 72]" and ff = 0,
      OF example_sorted [symmetric] ab example_first_pair_bin [symmetric] key]
  have before: "\<forall>s\<in>set (steps_before [65, 98, 72]
        (key_trace example_distance bin_distance_spec example_bins [fP, fH, fA] True 0)).
      key_ok ((example_bit_info 4)([65, 98, 72] := None)) s"
    by code_simp
  have first: "from_pharmacophore example_distance bin_distance_spec example_bins
     ((example_bit_info 4)([65, 98, 72] := None)) [fP, fH, fA] True 0 =
   Inl (KeyError [65, 98, 72])"
    using inst [where BIT_INFO = "(example_bit_info 4)([65, 98, 72] := None)"] before
    by simp
  have "FEATURE2BIT (kind ([fA, fH, fP] ! 0)) \<le> FEATURE2BIT (kind ([fA, fH, fP] ! 1))"
    using inst [where BIT_INFO = "example_bit_info 4"] by simp
  then have order: "FEATURE2BIT HACC \<le> FEATURE2BIT LIPO"
    by (simp add: fA_def fH_def)
  have "example_bit_info 4 [65, 98, 72] = Some 1096"
    by code_simp
  with first example_encoding order show ?thesis
    by (intro conjI)
qed

end
